theory Spec2Isabelle
  imports Main "HOL-Library.AList"
begin

section \<open>Values, field maps and severity levels\<close>

text \<open>
  The Go type \<^verbatim>\<open>interface{}\<close> of log arguments and field values is modelled by the
  kinds of value the code distinguishes: \<open>VError\<close> is a value implementing \<^verbatim>\<open>error\<close>
  (it carries what \<^verbatim>\<open>Error()\<close> returns), \<open>VChan\<close> stands for a value of a kind that
  \<^verbatim>\<open>encoding/json\<close> cannot encode (a channel).
\<close>

datatype val = VString string | VInt int | VError string | VChan

text \<open>
  \<^verbatim>\<open>type Fields map[string]interface{}\<close>. A Go map is a reference to a mutable table;
  the table is an association list with distinct keys, the order of the list standing for
  the order in which \<^verbatim>\<open>range\<close> yields the keys, and the reference is an address in
  the store of the \<open>world\<close> below. The nil map is \<open>None\<close>.
\<close>

type_synonym Fields = "(string \<times> val) list"
type_synonym fieldsRef = "nat option"

text \<open>\<^verbatim>\<open>type Level int\<close> with the constants declared by \<^verbatim>\<open>iota\<close>.\<close>

type_synonym Level = int

definition NoLevel :: Level where "NoLevel = 0"
definition PanicLevel :: Level where "PanicLevel = 1"
definition FatalLevel :: Level where "FatalLevel = 2"
definition ErrorLevel :: Level where "ErrorLevel = 3"
definition WarnLevel :: Level where "WarnLevel = 4"
definition InfoLevel :: Level where "InfoLevel = 5"
definition DebugLevel :: Level where "DebugLevel = 6"

text \<open>
  What ends a call other than a normal return: the run-time panics of Go that the code can
  reach, and \<open>WouldBlock\<close> for a channel operation that cannot proceed in the present
  state (the goroutine waits).
\<close>

datatype fault =
    IndexOutOfRange
  | NilFuncCall
  | SendOnClosedChannel
  | CloseOfClosedChannel
  | WouldBlock

text \<open>Indexing a Go array: out of range is a run-time panic.\<close>

definition index :: "'a list \<Rightarrow> int \<Rightarrow> fault + 'a" where
  "index xs i = (if 0 \<le> i \<and> i < int (length xs) then Inr (xs ! nat i) else Inl IndexOutOfRange)"

definition levelNames :: "string list" where
  "levelNames = ['''', ''panic'', ''fatal'', ''error'', ''warn'', ''info'', ''debug'']"

definition Level_String :: "Level \<Rightarrow> fault + string" where
  "Level_String lvl = index levelNames lvl"

definition levelNamesText :: "string list" where
  "levelNamesText =
     ['''', '' PANIC '', '' FATAL '', '' ERROR '', '' WARN '', '' INFO '', '' DEBUG '']"

section \<open>The standard library the logger calls\<close>

text \<open>
  \<^verbatim>\<open>fmt.Sprint\<close>, \<^verbatim>\<open>fmt.Sprintln\<close>, \<^verbatim>\<open>fmt.Sprintf\<close>, \<^verbatim>\<open>time.Time.Format\<close>,
  \<^verbatim>\<open>strings.TrimSpace\<close> and \<^verbatim>\<open>json.Marshal\<close> are not code of the package; every
  definition takes them as the parameter \<open>x\<close>. \<open>Marshal\<close> returns \<open>Inl\<close> of the error
  text when it fails.
\<close>

type_synonym time = nat

record ext =
  Sprint :: "val list \<Rightarrow> string"
  Sprintln :: "val list \<Rightarrow> string"
  Sprintf :: "string \<Rightarrow> val list \<Rightarrow> string"
  Format :: "time \<Rightarrow> string \<Rightarrow> string"
  TrimSpace :: "string \<Rightarrow> string"
  Marshal :: "Fields \<Rightarrow> string + string"

section \<open>Entries, the logger and its surroundings\<close>

text \<open>
  \<^verbatim>\<open>type entry struct\<close>. The field \<^verbatim>\<open>fields\<close> is named \<open>flds\<close> here (the record package
  reserves the other name).
\<close>

record entry =
  ts :: time
  level :: Level
  format :: string
  args :: "val list"
  flds :: fieldsRef
  ln :: bool

datatype writer = OsStdout | Writer nat

datatype writeFn = WriteText | WriteJSON

text \<open>
  \<^verbatim>\<open>entChan\<close> is the buffered channel of capacity 64: the entries sent and not yet received,
  oldest first, and whether \<^verbatim>\<open>close\<close> was called on it. \<^verbatim>\<open>doneChan\<close> carries no
  value; it is only ever closed, so it is the flag "closed".
\<close>

record logger =
  buf :: string
  entChan :: "entry list"
  entChanClosed :: bool
  doneChan :: bool
  writeFunc :: "writeFn option"
  out :: writer
  level :: Level
  tsLayout :: string
  prefix :: string

text \<open>
  The world of one logger: the logger, the store of field maps with its next free address,
  the byte strings passed to \<^verbatim>\<open>a.out.Write\<close> (one element per call, oldest first) and the
  lines printed with \<^verbatim>\<open>fmt.Println\<close>.
\<close>

record world =
  lg :: logger
  maps :: "nat \<Rightarrow> Fields"
  nextMap :: nat
  written :: "string list"
  printed :: "string list"

text \<open>
  \<^verbatim>\<open>newLogger\<close> and the two constructors. The channel is made with room for 64 entries.
  \<^verbatim>\<open>go a.run()\<close> starts the one consumer, whose turns are the \<open>Recv\<close> events below. The
  finalizer set with \<^verbatim>\<open>runtime.SetFinalizer\<close> is left out: it runs only once nothing
  refers to the logger any more.
\<close>

definition entCap :: nat where "entCap = 64"

definition defaultTimeLayout :: string where "defaultTimeLayout = ''Jan 02 15:04:05''"

definition newLogger :: "ext \<Rightarrow> writer option \<Rightarrow> Level \<Rightarrow> string \<Rightarrow> logger" where
  "newLogger x out0 level0 timeLayout0 =
     (let out1 = (case out0 of None \<Rightarrow> OsStdout | Some w \<Rightarrow> w);
          timeLayout1 = (if timeLayout0 = '''' then defaultTimeLayout
                         else TrimSpace x timeLayout0);
          level1 = (if level0 < NoLevel then NoLevel
                    else if level0 > DebugLevel then DebugLevel
                    else level0)
      in \<lparr> buf = [], entChan = [], entChanClosed = False, doneChan = False,
           writeFunc = None, out = out1, level = level1, tsLayout = timeLayout1,
           prefix = [] \<rparr>)"

definition NewText :: "ext \<Rightarrow> writer option \<Rightarrow> Level \<Rightarrow> string \<Rightarrow> string \<Rightarrow> logger" where
  "NewText x out0 level0 timeLayout0 prefix0 =
     (newLogger x out0 level0 timeLayout0)\<lparr> writeFunc := Some WriteText, prefix := prefix0 \<rparr>"

definition NewJSON :: "ext \<Rightarrow> writer option \<Rightarrow> Level \<Rightarrow> string \<Rightarrow> logger" where
  "NewJSON x out0 level0 timeLayout0 =
     (newLogger x out0 level0 timeLayout0)\<lparr> writeFunc := Some WriteJSON \<rparr>"

text \<open>The world in which a new logger starts: no field map allocated, nothing written.\<close>

definition boot :: "logger \<Rightarrow> world" where
  "boot a = \<lparr> lg = a, maps = (\<lambda>_. []), nextMap = 0, written = [], printed = [] \<rparr>"

section \<open>Field maps in the store\<close>

text \<open>Reading through a map reference; the nil map reads as empty.\<close>

definition readMap :: "world \<Rightarrow> fieldsRef \<Rightarrow> Fields" where
  "readMap w r = (case r of None \<Rightarrow> [] | Some p \<Rightarrow> maps w p)"

text \<open>\<^verbatim>\<open>make(Fields, n)\<close> and map literals: a fresh table at the next free address.\<close>

definition newFields :: "Fields \<Rightarrow> world \<Rightarrow> nat \<times> world" where
  "newFields m w =
     (nextMap w, w\<lparr> maps := (maps w)(nextMap w := m), nextMap := Suc (nextMap w) \<rparr>)"

text \<open>\<^verbatim>\<open>m[k] = v\<close> on a table.\<close>

definition setKey :: "string \<Rightarrow> val \<Rightarrow> Fields \<Rightarrow> Fields" where
  "setKey k v m = AList.update k v m"

section \<open>Producer side\<close>

text \<open>
  \<^verbatim>\<open>a.entChan <- e\<close>: a send on a closed channel panics, a send on a full channel waits,
  otherwise the entry is appended to the buffer.
\<close>

definition send :: "entry \<Rightarrow> world \<Rightarrow> fault + world" where
  "send e w =
     (if entChanClosed (lg w) then Inl SendOnClosedChannel
      else if entCap \<le> length (entChan (lg w)) then Inl WouldBlock
      else Inr (w\<lparr> lg := (lg w)\<lparr> entChan := entChan (lg w) @ [e] \<rparr> \<rparr>))"

text \<open>The argument \<open>now\<close> is what \<^verbatim>\<open>time.Now()\<close> returns in the call.\<close>

definition logger_Print :: "time \<Rightarrow> val list \<Rightarrow> world \<Rightarrow> fault + world" where
  "logger_Print now v w =
     send \<lparr> ts = now, level = 0, format = [], args = v, flds = None, ln = False \<rparr> w"

definition logger_Println :: "time \<Rightarrow> val list \<Rightarrow> world \<Rightarrow> fault + world" where
  "logger_Println now v w =
     send \<lparr> ts = now, level = 0, format = [], args = v, flds = None, ln = True \<rparr> w"

definition logger_Printf :: "time \<Rightarrow> string \<Rightarrow> val list \<Rightarrow> world \<Rightarrow> fault + world" where
  "logger_Printf now fmt v w =
     send \<lparr> ts = now, level = 0, format = fmt, args = v, flds = None, ln = False \<rparr> w"

definition LogableAt :: "logger \<Rightarrow> Level \<Rightarrow> bool" where
  "LogableAt a lvl = (if logger.level a \<noteq> NoLevel \<and> logger.level a < lvl then False else True)"

definition logger_log :: "time \<Rightarrow> fieldsRef \<Rightarrow> Level \<Rightarrow> val list \<Rightarrow> world \<Rightarrow> fault + world" where
  "logger_log now fs lvl v w =
     (if \<not> LogableAt (lg w) lvl then Inr w
      else send \<lparr> ts = now, level = lvl, format = [], args = v, flds = fs, ln = False \<rparr> w)"

definition logger_logln :: "time \<Rightarrow> fieldsRef \<Rightarrow> Level \<Rightarrow> val list \<Rightarrow> world \<Rightarrow> fault + world" where
  "logger_logln now fs lvl v w =
     (if \<not> LogableAt (lg w) lvl then Inr w
      else send \<lparr> ts = now, level = lvl, format = [], args = v, flds = fs, ln = True \<rparr> w)"

definition logger_logf ::
  "time \<Rightarrow> fieldsRef \<Rightarrow> Level \<Rightarrow> string \<Rightarrow> val list \<Rightarrow> world \<Rightarrow> fault + world" where
  "logger_logf now fs lvl fmt v w =
     (if \<not> LogableAt (lg w) lvl then Inr w
      else send \<lparr> ts = now, level = lvl, format = fmt, args = v, flds = fs, ln = False \<rparr> w)"

text \<open>
  The leveled methods of \<^verbatim>\<open>*logger\<close> pass the nil map. Each level has the three
  variants; those for Error, Warn and Debug differ from the ones below in the level
  constant only. The Panic family follows \<open>Close\<close> below; the Fatal family differs from it
  in ending with \<^verbatim>\<open>os.Exit(1)\<close>.
\<close>

definition logger_Info :: "time \<Rightarrow> val list \<Rightarrow> world \<Rightarrow> fault + world" where
  "logger_Info now v w = logger_log now None InfoLevel v w"

definition logger_Infoln :: "time \<Rightarrow> val list \<Rightarrow> world \<Rightarrow> fault + world" where
  "logger_Infoln now v w = logger_logln now None InfoLevel v w"

definition logger_Infof :: "time \<Rightarrow> string \<Rightarrow> val list \<Rightarrow> world \<Rightarrow> fault + world" where
  "logger_Infof now fmt v w = logger_logf now None InfoLevel fmt v w"

section \<open>Scoped loggers\<close>

text \<open>
  \<^verbatim>\<open>type fieldLogger struct { *logger; fields Fields }\<close>. The world holds one logger, so
  the embedded pointer is not represented; \<open>fields\<close> is the reference to the map.
\<close>

datatype fieldLogger = FieldLogger (fields: fieldsRef)

text \<open>\<^verbatim>\<open>(*logger).WithFields\<close> keeps the caller's map: no copy is made.\<close>

definition logger_WithFields :: "fieldsRef \<Rightarrow> fieldLogger" where
  "logger_WithFields fs = FieldLogger fs"

definition logger_WithField :: "string \<Rightarrow> val \<Rightarrow> world \<Rightarrow> fieldLogger \<times> world" where
  "logger_WithField key0 value0 w =
     (let (p, w1) = newFields [(key0, value0)] w in (logger_WithFields (Some p), w1))"

text \<open>
  \<^verbatim>\<open>(*fieldLogger).WithFields\<close>: a new map, filled from the receiver's map and then from
  the argument, in two \<^verbatim>\<open>range\<close> loops.
\<close>

definition fieldLogger_WithFields ::
  "fieldLogger \<Rightarrow> fieldsRef \<Rightarrow> world \<Rightarrow> fieldLogger \<times> world" where
  "fieldLogger_WithFields f fs w =
     (let (p, w1) = newFields [] w;
          m1 = fold (\<lambda>(k, v) m. setKey k v m) (readMap w1 (fields f)) (maps w1 p);
          m2 = fold (\<lambda>(k, v) m. setKey k v m) (readMap w1 fs) m1
      in (FieldLogger (Some p), w1\<lparr> maps := (maps w1)(p := m2) \<rparr>))"

definition fieldLogger_WithField ::
  "fieldLogger \<Rightarrow> string \<Rightarrow> val \<Rightarrow> world \<Rightarrow> fieldLogger \<times> world" where
  "fieldLogger_WithField f key0 value0 w =
     (let (p, w1) = newFields [(key0, value0)] w in fieldLogger_WithFields f (Some p) w1)"

definition fieldLogger_Print :: "fieldLogger \<Rightarrow> time \<Rightarrow> val list \<Rightarrow> world \<Rightarrow> fault + world" where
  "fieldLogger_Print f now v w =
     send \<lparr> ts = now, level = 0, format = [], args = v, flds = fields f, ln = False \<rparr> w"

definition fieldLogger_Println :: "fieldLogger \<Rightarrow> time \<Rightarrow> val list \<Rightarrow> world \<Rightarrow> fault + world" where
  "fieldLogger_Println f now v w =
     send \<lparr> ts = now, level = 0, format = [], args = v, flds = fields f, ln = True \<rparr> w"

definition fieldLogger_Printf ::
  "fieldLogger \<Rightarrow> time \<Rightarrow> string \<Rightarrow> val list \<Rightarrow> world \<Rightarrow> fault + world" where
  "fieldLogger_Printf f now fmt v w =
     send \<lparr> ts = now, level = 0, format = fmt, args = v, flds = fields f, ln = False \<rparr> w"

definition fieldLogger_Info :: "fieldLogger \<Rightarrow> time \<Rightarrow> val list \<Rightarrow> world \<Rightarrow> fault + world" where
  "fieldLogger_Info f now v w = logger_log now (fields f) InfoLevel v w"

section \<open>Encoders\<close>

definition ErrorField :: string where "ErrorField = ''error''"
definition levelField :: string where "levelField = ''level''"
definition extLevelField :: string where "extLevelField = ''fields.level''"
definition msgField :: string where "msgField = ''msg''"
definition extMsgField :: string where "extMsgField = ''fields.msg''"
definition timeField :: string where "timeField = ''time''"
definition extTimeField :: string where "extTimeField = ''fields.time''"

text \<open>
  \<^verbatim>\<open>writeText\<close>. The buffer always holds the label or the space when the line-mode branch
  cuts its last byte, so that slice expression cannot fail; \<open>butlast\<close> is that cut.
\<close>

definition writeText :: "ext \<Rightarrow> entry \<Rightarrow> world \<Rightarrow> fault + world" where
  "writeText x ent w =
     (let a = lg w;
          b0 = [];
          b1 = (if prefix a \<noteq> [] then b0 @ prefix a else b0);
          b2 = (if tsLayout a \<noteq> [] then b1 @ Format x (ts ent) (tsLayout a) else b1)
      in case (if logger.level a \<noteq> NoLevel \<and> entry.level ent \<noteq> NoLevel
               then (case index levelNamesText (entry.level ent) of
                       Inl e \<Rightarrow> Inl e
                     | Inr s \<Rightarrow> Inr (b2 @ s))
               else Inr (b2 @ '' '')) of
           Inl e \<Rightarrow> Inl e
         | Inr b3 \<Rightarrow>
            (let b4 = (if format ent \<noteq> [] then b3 @ Sprintf x (format ent) (args ent)
                       else if ln ent then butlast (b3 @ Sprintln x (args ent))
                       else b3 @ Sprint x (args ent));
                 b5 = fold (\<lambda>(k, v) b. b @ '' ('' @ k @ ''='' @ Sprint x [v] @ '')'')
                        (readMap w (flds ent)) b4;
                 b6 = b5 @ [CHR 0x0A]
             in Inr (w\<lparr> lg := a\<lparr> buf := b6 \<rparr>, written := written w @ [b6] \<rparr>)))"

text \<open>The first loop of \<^verbatim>\<open>writeJSON\<close>: error values are replaced by their text.\<close>

definition errorsToStrings :: "Fields \<Rightarrow> Fields" where
  "errorsToStrings m =
     fold (\<lambda>(k, v) m'. case v of VError e \<Rightarrow> setKey k (VString e) m' | _ \<Rightarrow> m') m m"

text \<open>
  Lines 289 to 311 of \<^verbatim>\<open>writeJSON\<close>: the reserved keys are stored into the entry's map,
  a value found under a reserved key being moved to the \<^verbatim>\<open>fields.\<close> key first.
\<close>

definition keepUnder :: "string \<Rightarrow> string \<Rightarrow> Fields \<Rightarrow> Fields" where
  "keepUnder k extk m = (case map_of m k of Some v \<Rightarrow> setKey extk v m | None \<Rightarrow> m)"

definition addReserved :: "ext \<Rightarrow> logger \<Rightarrow> entry \<Rightarrow> Fields \<Rightarrow> fault + Fields" where
  "addReserved x a ent m1 =
     (let m2 = (if tsLayout a \<noteq> []
                then setKey timeField (VString (Format x (ts ent) (tsLayout a)))
                       (keepUnder timeField extTimeField m1)
                else m1)
      in case (if logger.level a \<noteq> NoLevel \<and> entry.level ent \<noteq> NoLevel
               then (case Level_String (entry.level ent) of
                       Inl e \<Rightarrow> Inl e
                     | Inr s \<Rightarrow> Inr (setKey levelField (VString s)
                                      (keepUnder levelField extLevelField m2)))
               else Inr m2) of
           Inl e \<Rightarrow> Inl e
         | Inr m3 \<Rightarrow>
            Inr (if format ent \<noteq> []
                 then setKey msgField (VString (Sprintf x (format ent) (args ent)))
                        (keepUnder msgField extMsgField m3)
                 else setKey msgField (VString (Sprint x (args ent)))
                        (keepUnder msgField extMsgField m3)))"

text \<open>
  \<^verbatim>\<open>writeJSON\<close>. All stores go to the map the entry refers to, which is the map of the
  scoped logger that made the entry; only an entry with the nil map gets a map of its own.
\<close>

definition writeJSON :: "ext \<Rightarrow> entry \<Rightarrow> world \<Rightarrow> fault + world" where
  "writeJSON x ent w =
     (let (p, w1) = (case flds ent of None \<Rightarrow> newFields [] w | Some q \<Rightarrow> (q, w))
      in case addReserved x (lg w1) ent (errorsToStrings (maps w1 p)) of
           Inl e \<Rightarrow> Inl e
         | Inr m \<Rightarrow>
            (let w2 = w1\<lparr> maps := (maps w1)(p := m) \<rparr>
             in case Marshal x m of
                  Inl err \<Rightarrow>
                    Inr (w2\<lparr> printed := printed w2 @
                            [Sprintln x [VString ''Failed to marshal fields to JSON:'',
                                         VError err]] \<rparr>)
                | Inr encoded \<Rightarrow>
                    Inr (w2\<lparr> written := written w2 @ [encoded @ [CHR 0x0A]] \<rparr>)))"

text \<open>\<^verbatim>\<open>a.writeFunc(ent)\<close>; the field is nil until \<^verbatim>\<open>NewText\<close> or \<^verbatim>\<open>NewJSON\<close> sets it.\<close>

definition callWriteFunc :: "ext \<Rightarrow> entry \<Rightarrow> world \<Rightarrow> fault + world" where
  "callWriteFunc x ent w =
     (case writeFunc (lg w) of
        None \<Rightarrow> Inl NilFuncCall
      | Some WriteText \<Rightarrow> writeText x ent w
      | Some WriteJSON \<Rightarrow> writeJSON x ent w)"

section \<open>Consumer side and shutdown\<close>

text \<open>
  One turn of \<^verbatim>\<open>for ent := range a.entChan\<close> in \<^verbatim>\<open>run\<close>: receive the oldest entry and
  encode it; on a closed and empty channel leave the loop and close \<^verbatim>\<open>doneChan\<close>; on an
  open and empty channel wait. After \<^verbatim>\<open>doneChan\<close> is closed the goroutine is gone.
\<close>

definition run_step :: "ext \<Rightarrow> world \<Rightarrow> fault + world" where
  "run_step x w =
     (if doneChan (lg w) then Inl WouldBlock
      else case entChan (lg w) of
             ent # es \<Rightarrow> callWriteFunc x ent (w\<lparr> lg := (lg w)\<lparr> entChan := es \<rparr> \<rparr>)
           | [] \<Rightarrow> if entChanClosed (lg w)
                   then Inr (w\<lparr> lg := (lg w)\<lparr> doneChan := True \<rparr> \<rparr>)
                   else Inl WouldBlock)"

text \<open>
  \<^verbatim>\<open>run\<close> from the moment the channel is closed with the entries \<open>es\<close> in its buffer: the
  loop receives each of them and then ends.
\<close>

fun run :: "ext \<Rightarrow> entry list \<Rightarrow> world \<Rightarrow> fault + world" where
  "run x [] w = Inr (w\<lparr> lg := (lg w)\<lparr> doneChan := True \<rparr> \<rparr>)"
| "run x (ent # es) w =
     (case callWriteFunc x ent (w\<lparr> lg := (lg w)\<lparr> entChan := es \<rparr> \<rparr>) of
        Inl e \<Rightarrow> Inl e
      | Inr w' \<Rightarrow> run x es w')"

text \<open>
  \<^verbatim>\<open>Close\<close> with no other producer at work: \<^verbatim>\<open>close(a.entChan)\<close>, then the wait for
  \<^verbatim>\<open>doneChan\<close>, during which only the consumer runs.
\<close>

definition closeEntChan :: "world \<Rightarrow> fault + world" where
  "closeEntChan w =
     (if entChanClosed (lg w) then Inl CloseOfClosedChannel
      else Inr (w\<lparr> lg := (lg w)\<lparr> entChanClosed := True \<rparr> \<rparr>))"

definition logger_Close :: "ext \<Rightarrow> world \<Rightarrow> fault + world" where
  "logger_Close x w =
     (case closeEntChan w of
        Inl e \<Rightarrow> Inl e
      | Inr w1 \<Rightarrow> run x (entChan (lg w1)) w1)"

text \<open>
  The Panic family. A call that reaches its last statement \<^verbatim>\<open>panic(s)\<close> gives \<open>Inr (w, s)\<close>:
  the world at that moment and the value passed to \<^verbatim>\<open>panic\<close>.
\<close>

definition logger_Panic :: "ext \<Rightarrow> time \<Rightarrow> val list \<Rightarrow> world \<Rightarrow> fault + world \<times> string" where
  "logger_Panic x now v w =
     (case logger_log now None PanicLevel v w of
        Inl e \<Rightarrow> Inl e
      | Inr w1 \<Rightarrow>
         (case logger_Close x w1 of
            Inl e \<Rightarrow> Inl e
          | Inr w2 \<Rightarrow> Inr (w2, Sprint x v)))"

definition logger_Panicln :: "ext \<Rightarrow> time \<Rightarrow> val list \<Rightarrow> world \<Rightarrow> fault + world \<times> string" where
  "logger_Panicln x now v w =
     (case logger_logln now None PanicLevel v w of
        Inl e \<Rightarrow> Inl e
      | Inr w1 \<Rightarrow>
         (case logger_Close x w1 of
            Inl e \<Rightarrow> Inl e
          | Inr w2 \<Rightarrow> Inr (w2, Sprint x v)))"

definition logger_Panicf ::
  "ext \<Rightarrow> time \<Rightarrow> string \<Rightarrow> val list \<Rightarrow> world \<Rightarrow> fault + world \<times> string" where
  "logger_Panicf x now fmt v w =
     (case logger_logf now None PanicLevel fmt v w of
        Inl e \<Rightarrow> Inl e
      | Inr w1 \<Rightarrow>
         (case logger_Close x w1 of
            Inl e \<Rightarrow> Inl e
          | Inr w2 \<Rightarrow> Inr (w2, Sprintf x fmt v)))"

definition fieldLogger_Panic ::
  "ext \<Rightarrow> fieldLogger \<Rightarrow> time \<Rightarrow> val list \<Rightarrow> world \<Rightarrow> fault + world \<times> string" where
  "fieldLogger_Panic x f now v w =
     (case logger_log now (fields f) PanicLevel v w of
        Inl e \<Rightarrow> Inl e
      | Inr w1 \<Rightarrow>
         (case logger_Close x w1 of
            Inl e \<Rightarrow> Inl e
          | Inr w2 \<Rightarrow> Inr (w2, Sprint x v)))"

definition fieldLogger_Panicln ::
  "ext \<Rightarrow> fieldLogger \<Rightarrow> time \<Rightarrow> val list \<Rightarrow> world \<Rightarrow> fault + world \<times> string" where
  "fieldLogger_Panicln x f now v w =
     (case logger_logln now (fields f) PanicLevel v w of
        Inl e \<Rightarrow> Inl e
      | Inr w1 \<Rightarrow>
         (case logger_Close x w1 of
            Inl e \<Rightarrow> Inl e
          | Inr w2 \<Rightarrow> Inr (w2, Sprint x v)))"

definition fieldLogger_Panicf ::
  "ext \<Rightarrow> fieldLogger \<Rightarrow> time \<Rightarrow> string \<Rightarrow> val list \<Rightarrow> world \<Rightarrow> fault + world \<times> string" where
  "fieldLogger_Panicf x f now fmt v w =
     (case logger_logf now (fields f) PanicLevel fmt v w of
        Inl e \<Rightarrow> Inl e
      | Inr w1 \<Rightarrow>
         (case logger_Close x w1 of
            Inl e \<Rightarrow> Inl e
          | Inr w2 \<Rightarrow> Inr (w2, Sprintf x fmt v)))"

section \<open>Interleaved executions\<close>

text \<open>
  Producers and the consumer run concurrently. An execution is a list of atomic events in
  the order in which they take effect: a send of an entry by some producer, a turn of the
  consumer's loop, and the \<^verbatim>\<open>close(a.entChan)\<close> of a \<^verbatim>\<open>Close\<close> call. \<^verbatim>\<open>Close\<close>
  returns once \<^verbatim>\<open>doneChan\<close> is closed.
\<close>

datatype event = Send entry | Recv | CloseChan

definition exec :: "ext \<Rightarrow> event \<Rightarrow> world \<Rightarrow> fault + world" where
  "exec x ev w = (case ev of Send e \<Rightarrow> send e w | Recv \<Rightarrow> run_step x w | CloseChan \<Rightarrow> closeEntChan w)"

fun execs :: "ext \<Rightarrow> event list \<Rightarrow> world \<Rightarrow> fault + world" where
  "execs x [] w = Inr w"
| "execs x (ev # evs) w = (case exec x ev w of Inl e \<Rightarrow> Inl e | Inr w' \<Rightarrow> execs x evs w')"

text \<open>The entries sent in an execution, in the order of the sends.\<close>

fun sends :: "event list \<Rightarrow> entry list" where
  "sends [] = []"
| "sends (Send e # evs) = e # sends evs"
| "sends (Recv # evs) = sends evs"
| "sends (CloseChan # evs) = sends evs"

text \<open>Encoding a list of entries one after the other, as a consumer alone would.\<close>

fun encodeAll :: "ext \<Rightarrow> entry list \<Rightarrow> world \<Rightarrow> fault + world" where
  "encodeAll x [] w = Inr w"
| "encodeAll x (ent # es) w =
     (case callWriteFunc x ent w of Inl e \<Rightarrow> Inl e | Inr w' \<Rightarrow> encodeAll x es w')"

section \<open>A concrete library for the examples\<close>

text \<open>
  The closed examples need the library calls computed. \<open>goLib\<close> follows the documented
  behaviour of the Go library on what the examples use: \<^verbatim>\<open>Sprint\<close> puts a space between
  two operands when neither is a string, \<^verbatim>\<open>Sprintln\<close> puts one between all operands and
  ends the line; layouts and formats are used without verbs and reference-time elements,
  where \<^verbatim>\<open>Format\<close> and \<^verbatim>\<open>Sprintf\<close> give the text itself; \<^verbatim>\<open>Marshal\<close> writes an
  object with its keys sorted and rejects channels (keys and strings are used without
  characters that JSON escapes).
\<close>

fun showNat :: "nat \<Rightarrow> string" where
  "showNat n =
     (if n < 10 then [''0123456789'' ! n]
      else showNat (n div 10) @ [''0123456789'' ! (n mod 10)])"

fun showVal :: "val \<Rightarrow> string" where
  "showVal (VString s) = s"
| "showVal (VInt i) = (if i < 0 then ''-'' @ showNat (nat (- i)) else showNat (nat i))"
| "showVal (VError e) = e"
| "showVal VChan = ''0xc000012345''"

fun isString :: "val \<Rightarrow> bool" where
  "isString (VString s) = True"
| "isString v = False"

fun goSprint :: "val list \<Rightarrow> string" where
  "goSprint [] = []"
| "goSprint [v] = showVal v"
| "goSprint (v # u # vs) =
     showVal v @ (if \<not> isString v \<and> \<not> isString u then '' '' else []) @ goSprint (u # vs)"

fun goSprintln :: "val list \<Rightarrow> string" where
  "goSprintln [] = [CHR 0x0A]"
| "goSprintln [v] = showVal v @ [CHR 0x0A]"
| "goSprintln (v # u # vs) = showVal v @ '' '' @ goSprintln (u # vs)"

definition isSpace :: "char \<Rightarrow> bool" where
  "isSpace c = (c \<in> set [CHR 0x20, CHR 0x09, CHR 0x0A, CHR 0x0B, CHR 0x0C, CHR 0x0D])"

definition goTrimSpace :: "string \<Rightarrow> string" where
  "goTrimSpace s = rev (dropWhile isSpace (rev (dropWhile isSpace s)))"

fun bytesLess :: "string \<Rightarrow> string \<Rightarrow> bool" where
  "bytesLess [] [] = False"
| "bytesLess [] (d # t) = True"
| "bytesLess (c # s) [] = False"
| "bytesLess (c # s) (d # t) =
     ((of_char c :: nat) < of_char d \<or> (c = d \<and> bytesLess s t))"

fun insertKey :: "string \<times> val \<Rightarrow> Fields \<Rightarrow> Fields" where
  "insertKey kv [] = [kv]"
| "insertKey kv (kv' # m) =
     (if bytesLess (fst kv') (fst kv) then kv' # insertKey kv m else kv # kv' # m)"

definition sortKeys :: "Fields \<Rightarrow> Fields" where
  "sortKeys m = foldr insertKey m []"

fun jsonVal :: "val \<Rightarrow> string + string" where
  "jsonVal (VString s) = Inr ([CHR 0x22] @ s @ [CHR 0x22])"
| "jsonVal (VInt i) = Inr (showVal (VInt i))"
| "jsonVal (VError e) = Inr ''{}''"
| "jsonVal VChan = Inl ''json: unsupported type: chan int''"

fun jsonMembers :: "Fields \<Rightarrow> string + string" where
  "jsonMembers [] = Inr []"
| "jsonMembers ((k, v) # m) =
     (case jsonVal v of
        Inl err \<Rightarrow> Inl err
      | Inr jv \<Rightarrow>
         (case jsonMembers m of
            Inl err \<Rightarrow> Inl err
          | Inr rest \<Rightarrow>
             Inr ([CHR 0x22] @ k @ [CHR 0x22] @ '':'' @ jv @
                  (if m = [] then [] else '','' @ rest))))"

definition goMarshal :: "Fields \<Rightarrow> string + string" where
  "goMarshal m =
     (case jsonMembers (sortKeys m) of
        Inl err \<Rightarrow> Inl err
      | Inr body \<Rightarrow> Inr (''{'' @ body @ ''}''))"

definition goLib :: ext where
  "goLib = \<lparr> Sprint = goSprint, Sprintln = goSprintln, Sprintf = (\<lambda>fmt v. fmt),
             Format = (\<lambda>t layout. layout), TrimSpace = goTrimSpace, Marshal = goMarshal \<rparr>"

section \<open>The text line as the specification words it\<close>

text \<open>
  The label, the message and the line as the specification of the text encoder states
  them, to be compared with \<open>writeText\<close>. The rendered message of an entry is the
  \<^verbatim>\<open>Sprintf\<close> of a formatted entry, the \<^verbatim>\<open>Sprintln\<close> without its final newline of a
  line-mode entry and the \<^verbatim>\<open>Sprint\<close> of any other.
\<close>

definition spec_label :: "Level \<Rightarrow> Level \<Rightarrow> string" where
  "spec_label T S =
     (if T \<noteq> NoLevel \<and> S \<noteq> NoLevel
      then (if S = PanicLevel then '' PANIC ''
            else if S = FatalLevel then '' FATAL ''
            else if S = ErrorLevel then '' ERROR ''
            else if S = WarnLevel then '' WARN ''
            else if S = InfoLevel then '' INFO ''
            else '' DEBUG '')
      else '' '')"

definition spec_message :: "ext \<Rightarrow> entry \<Rightarrow> string" where
  "spec_message x ent =
     (if format ent \<noteq> [] then Sprintf x (format ent) (args ent)
      else if ln ent then butlast (Sprintln x (args ent))
      else Sprint x (args ent))"

definition spec_text_line :: "ext \<Rightarrow> logger \<Rightarrow> Fields \<Rightarrow> entry \<Rightarrow> string" where
  "spec_text_line x a m ent =
     prefix a @
     (if tsLayout a = [] then [] else Format x (ts ent) (tsLayout a)) @
     spec_label (logger.level a) (entry.level ent) @
     spec_message x ent @
     concat (map (\<lambda>(k, v). '' ('' @ k @ ''='' @ Sprint x [v] @ '')'') m) @
     [CHR 0x0A]"

text \<open>
  An example: a text logger with prefix and no timestamp, a map \<^verbatim>\<open>{"foo": "bar"}\<close> at
  address 0 and an Info entry that refers to it.
\<close>

definition ex_text_world :: world where
  "ex_text_world =
     snd (newFields [(''foo'', VString ''bar'')]
            (boot (NewText goLib None DebugLevel '' '' ''happylog '')))"

definition ex_text_entry :: entry where
  "ex_text_entry =
     \<lparr> ts = 0, level = InfoLevel, format = [], args = [VString ''hello''], flds = Some 0,
       ln = False \<rparr>"

section \<open>The JSON object\<close>

text \<open>
  \<open>jsonObject\<close> is the map that \<open>writeJSON\<close> passes to \<^verbatim>\<open>json.Marshal\<close> for an entry;
  \<open>errorText\<close> is what the first loop of \<open>writeJSON\<close> does to one value; \<open>spec_msg_json\<close>
  is the message the JSON encoder computes.
\<close>

definition errorText :: "val \<Rightarrow> val" where
  "errorText v = (case v of VError e \<Rightarrow> VString e | _ \<Rightarrow> v)"

definition jsonObject :: "ext \<Rightarrow> entry \<Rightarrow> world \<Rightarrow> fault + Fields" where
  "jsonObject x ent w = addReserved x (lg w) ent (errorsToStrings (readMap w (flds ent)))"

definition spec_msg_json :: "ext \<Rightarrow> entry \<Rightarrow> string" where
  "spec_msg_json x ent =
     (if format ent \<noteq> [] then Sprintf x (format ent) (args ent) else Sprint x (args ent))"

text \<open>
  An example: a JSON logger at \<open>DebugLevel\<close> without timestamps, a scoped logger's map
  \<^verbatim>\<open>{"level": "custom"}\<close> at address 0 and an Info entry of that scoped logger.
\<close>

definition ex_json_world :: world where
  "ex_json_world =
     snd (newFields [(''level'', VString ''custom'')]
            (boot (NewJSON goLib None DebugLevel '' '')))"

definition ex_json_entry :: entry where
  "ex_json_entry =
     \<lparr> ts = 0, level = InfoLevel, format = [], args = [VString ''hello''], flds = Some 0,
       ln = False \<rparr>"

section \<open>Marshalling failure\<close>

text \<open>The line that \<open>writeJSON\<close> prints with \<^verbatim>\<open>fmt.Println\<close> when marshalling fails.\<close>

definition marshalDiagnostic :: "ext \<Rightarrow> string \<Rightarrow> string" where
  "marshalDiagnostic x err =
     Sprintln x [VString ''Failed to marshal fields to JSON:'', VError err]"

text \<open>
  An example: a JSON logger that writes to a writer of its own, a scoped logger whose map
  holds a channel, one entry printed through the scoped logger and one through the logger
  itself, both waiting in the channel; and the same after \<^verbatim>\<open>close(a.entChan)\<close>.
\<close>

definition ex_chan_world :: world where
  "ex_chan_world =
     (let (p, w1) = newFields [(''c'', VChan)] (boot (NewJSON goLib (Some (Writer 0)) NoLevel '' ''));
          w2 = projr (fieldLogger_Print (logger_WithFields (Some p)) 0 [VString ''x''] w1)
      in projr (logger_Print 0 [VString ''y''] w2))"

definition ex_chan_closed :: world where
  "ex_chan_closed = projr (closeEntChan ex_chan_world)"

section \<open>Merging field sets\<close>

text \<open>
  The merge of the specification: the existing fields first, the additions laid over
  them, so that an addition shadows an existing field of the same name.
\<close>

definition spec_merge :: "Fields \<Rightarrow> Fields \<Rightarrow> (string \<rightharpoonup> val)" where
  "spec_merge A B = map_of A ++ map_of B"

text \<open>
  An example: the maps \<^verbatim>\<open>{"foo": "bar", "baz": "quz"}\<close>, \<^verbatim>\<open>{"baz": 7, "July": 7}\<close> and
  their merge at the addresses 0, 1 and 2.
\<close>

definition ex_merge_world :: world where
  "ex_merge_world =
     (let (a, w1) = newFields [(''foo'', VString ''bar''), (''baz'', VString ''quz'')]
                      (boot (NewText goLib None NoLevel [] []));
          (b, w2) = newFields [(''baz'', VInt 7), (''July'', VInt 7)] w1;
          (m, w3) = newFields [(''July'', VInt 7), (''foo'', VString ''bar''), (''baz'', VInt 7)] w2
      in w3)"

section \<open>A scoped logger used twice\<close>

text \<open>
  An example: the scoped logger made from the map \<^verbatim>\<open>{"level": "custom"}\<close> of
  \<open>ex_json_world\<close> logs at Info twice; both entries wait in the channel.
\<close>

definition ex_scoped :: fieldLogger where
  "ex_scoped = logger_WithFields (Some 0)"

definition ex_shared_world :: world where
  "ex_shared_world =
     projr (fieldLogger_Info ex_scoped 0 [VString ''two'']
       (projr (fieldLogger_Info ex_scoped 0 [VString ''one''] ex_json_world)))"

text \<open>A string between double quotes, for writing JSON lines.\<close>

definition inQuotes :: "string \<Rightarrow> string" where
  "inQuotes s = [CHR 0x22] @ s @ [CHR 0x22]"

section \<open>Comparing executions\<close>

text \<open>
  Two worlds are similar when they differ at most in the state of the two channels: the
  same maps, the same calls made on the writer, the same lines printed, the same buffer
  and configuration.
\<close>

definition sim :: "world \<Rightarrow> world \<Rightarrow> bool" where
  "sim w1 w2 \<longleftrightarrow>
     maps w1 = maps w2 \<and> nextMap w1 = nextMap w2 \<and> written w1 = written w2 \<and>
     printed w1 = printed w2 \<and> buf (lg w1) = buf (lg w2) \<and>
     writeFunc (lg w1) = writeFunc (lg w2) \<and> out (lg w1) = out (lg w2) \<and>
     logger.level (lg w1) = logger.level (lg w2) \<and> tsLayout (lg w1) = tsLayout (lg w2) \<and>
     prefix (lg w1) = prefix (lg w2)"

text \<open>Once \<^verbatim>\<open>doneChan\<close> is closed the entry channel is closed and empty.\<close>

definition chan_ok :: "world \<Rightarrow> bool" where
  "chan_ok w \<longleftrightarrow> (doneChan (lg w) \<longrightarrow> entChanClosed (lg w) \<and> entChan (lg w) = [])"

text \<open>
  An example execution on \<open>ex_text_world\<close>: two sends, a consumer turn, the close, and the
  consumer turns that drain the channel.
\<close>

definition ex_bye_entry :: entry where
  "ex_bye_entry =
     \<lparr> ts = 0, level = 0, format = [], args = [VString ''bye''], flds = None, ln = False \<rparr>"

definition ex_schedule :: "event list" where
  "ex_schedule = [Send ex_text_entry, Send ex_bye_entry, Recv, CloseChan, Recv, Recv]"

section \<open>An example for the Panic family\<close>

text \<open>A text logger at \<open>InfoLevel\<close> without timestamp and prefix, and two string operands.\<close>

definition ex_panic_world :: world where
  "ex_panic_world = boot (NewText goLib None InfoLevel '' '' [])"

definition ex_panic_args :: "val list" where
  "ex_panic_args = [VString ''a'', VString ''b'']"

section \<open>Levels\<close>

lemmas level_defs =
  NoLevel_def PanicLevel_def FatalLevel_def ErrorLevel_def WarnLevel_def InfoLevel_def
  DebugLevel_def

lemma level_cases:
  assumes "NoLevel \<le> lvl" and "lvl \<le> DebugLevel"
  shows "lvl \<in> {NoLevel, PanicLevel, FatalLevel, ErrorLevel, WarnLevel, InfoLevel, DebugLevel}"
  using assms unfolding level_defs by auto

text \<open>
  Claim C10. \<open>Level.String()\<close> returns, for each level from \<open>NoLevel\<close> to \<open>DebugLevel\<close>,
  the lower-case name of the level (the empty string for \<open>NoLevel\<close>), these seven being all
  the levels of that range; for every other value of the integer type \<open>Level\<close> the array
  index is out of range, which is a run-time panic.
\<close>

theorem Level_String_range:
  "Level_String NoLevel = Inr '''' \<and>
   Level_String PanicLevel = Inr ''panic'' \<and>
   Level_String FatalLevel = Inr ''fatal'' \<and>
   Level_String ErrorLevel = Inr ''error'' \<and>
   Level_String WarnLevel = Inr ''warn'' \<and>
   Level_String InfoLevel = Inr ''info'' \<and>
   Level_String DebugLevel = Inr ''debug'' \<and>
   (\<forall>lvl. NoLevel \<le> lvl \<and> lvl \<le> DebugLevel \<longrightarrow>
      lvl \<in> {NoLevel, PanicLevel, FatalLevel, ErrorLevel, WarnLevel, InfoLevel, DebugLevel}) \<and>
   (\<forall>lvl. lvl < NoLevel \<or> DebugLevel < lvl \<longrightarrow> Level_String lvl = Inl IndexOutOfRange)"
proof -
  have names: "Level_String NoLevel = Inr ''''" "Level_String PanicLevel = Inr ''panic''"
    "Level_String FatalLevel = Inr ''fatal''" "Level_String ErrorLevel = Inr ''error''"
    "Level_String WarnLevel = Inr ''warn''" "Level_String InfoLevel = Inr ''info''"
    "Level_String DebugLevel = Inr ''debug''"
    by (simp_all add: Level_String_def index_def levelNames_def level_defs)
  have outside: "Level_String lvl = Inl IndexOutOfRange"
    if "lvl < NoLevel \<or> DebugLevel < lvl" for lvl
    using that by (auto simp: Level_String_def index_def levelNames_def level_defs)
  from names outside level_cases show ?thesis by blast
qed

theorem Level_String_range_witness:
  "Level_String 3 = Inr ''error'' \<and> Level_String 7 = Inl IndexOutOfRange \<and>
   Level_String (- 1) = Inl IndexOutOfRange"
  using Level_String_range by (simp add: level_defs)

section \<open>The configuration does not change\<close>

lemma writeText_lg:
  assumes "writeText x ent w = Inr w'"
  shows "\<exists>b. lg w' = (lg w)\<lparr> buf := b \<rparr>"
  using assms unfolding writeText_def Let_def
  by (auto split: sum.splits if_splits)

lemma writeJSON_lg:
  assumes "writeJSON x ent w = Inr w'"
  shows "lg w' = lg w"
  using assms unfolding writeJSON_def Let_def newFields_def
  by (auto split: sum.splits if_splits option.splits prod.splits)

lemma callWriteFunc_lg:
  assumes "callWriteFunc x ent w = Inr w'"
  shows "\<exists>b. lg w' = (lg w)\<lparr> buf := b \<rparr>"
proof (cases "writeFunc (lg w)")
  case None
  with assms show ?thesis by (simp add: callWriteFunc_def)
next
  case (Some fn)
  show ?thesis
  proof (cases fn)
    case WriteText
    with Some assms show ?thesis by (simp add: callWriteFunc_def writeText_lg)
  next
    case WriteJSON
    with Some assms have "lg w' = lg w" by (simp add: callWriteFunc_def writeJSON_lg)
    then have "lg w' = (lg w)\<lparr> buf := buf (lg w) \<rparr>" by simp
    then show ?thesis by blast
  qed
qed

lemma send_level:
  assumes "send e w = Inr w'"
  shows "logger.level (lg w') = logger.level (lg w)"
  using assms by (auto simp: send_def split: if_splits)

lemma run_step_level:
  assumes "run_step x w = Inr w'"
  shows "logger.level (lg w') = logger.level (lg w)"
proof (cases "entChan (lg w)")
  case Nil
  with assms show ?thesis by (auto simp: run_step_def split: if_splits)
next
  case (Cons ent es)
  with assms have "callWriteFunc x ent (w\<lparr> lg := (lg w)\<lparr> entChan := es \<rparr> \<rparr>) = Inr w'"
    by (auto simp: run_step_def split: if_splits)
  from callWriteFunc_lg [OF this] show ?thesis by auto
qed

lemma closeEntChan_level:
  assumes "closeEntChan w = Inr w'"
  shows "logger.level (lg w') = logger.level (lg w)"
  using assms by (auto simp: closeEntChan_def split: if_splits)

lemma exec_level:
  assumes "exec x ev w = Inr w'"
  shows "logger.level (lg w') = logger.level (lg w)"
  using assms send_level run_step_level closeEntChan_level
  by (cases ev) (auto simp: exec_def)

lemma execs_level:
  "execs x evs w = Inr w' \<Longrightarrow> logger.level (lg w') = logger.level (lg w)"
proof (induction evs arbitrary: w)
  case Nil
  then show ?case by simp
next
  case (Cons ev evs)
  then obtain w1 where 1: "exec x ev w = Inr w1" and 2: "execs x evs w1 = Inr w'"
    by (auto split: sum.splits)
  from Cons.IH [OF 2] exec_level [OF 1] show ?case by simp
qed

lemma run_level:
  "run x es w = Inr w' \<Longrightarrow> logger.level (lg w') = logger.level (lg w)"
proof (induction es arbitrary: w)
  case Nil
  then show ?case by auto
next
  case (Cons ent es)
  from Cons.prems obtain w1
    where 1: "callWriteFunc x ent (w\<lparr> lg := (lg w)\<lparr> entChan := es \<rparr> \<rparr>) = Inr w1"
      and 2: "run x es w1 = Inr w'"
    by (auto split: sum.splits)
  from callWriteFunc_lg [OF 1] have "logger.level (lg w1) = logger.level (lg w)" by auto
  with Cons.IH [OF 2] show ?case by simp
qed

lemma logger_Close_level:
  assumes "logger_Close x w = Inr w'"
  shows "logger.level (lg w') = logger.level (lg w)"
proof -
  from assms obtain w1 where 1: "closeEntChan w = Inr w1"
    and 2: "run x (entChan (lg w1)) w1 = Inr w'"
    by (auto simp: logger_Close_def split: sum.splits)
  from run_level [OF 2] closeEntChan_level [OF 1] show ?thesis by simp
qed

lemma fieldLogger_WithFields_lg:
  assumes "fieldLogger_WithFields f fs w = (f', w')"
  shows "lg w' = lg w"
  using assms unfolding fieldLogger_WithFields_def Let_def newFields_def
  by (auto split: prod.splits)

text \<open>
  Claim C9. Whatever level is passed to the construction of a logger, the level stored is
  that value clamped into the range from \<open>NoLevel\<close> to \<open>DebugLevel\<close>: a smaller value
  becomes \<open>NoLevel\<close>, a larger one \<open>DebugLevel\<close>; \<open>NewText\<close> and \<open>NewJSON\<close> store the
  level of \<open>newLogger\<close>; and no execution of sends, consumer turns and closing, no
  \<open>Close\<close> and no \<open>WithFields\<close> changes the stored level.
\<close>

theorem newLogger_level_clamped:
  "logger.level (newLogger x out0 L lay) =
     (if L < NoLevel then NoLevel else if DebugLevel < L then DebugLevel else L) \<and>
   NoLevel \<le> logger.level (newLogger x out0 L lay) \<and>
   logger.level (newLogger x out0 L lay) \<le> DebugLevel \<and>
   logger.level (NewText x out0 L lay pfx) = logger.level (newLogger x out0 L lay) \<and>
   logger.level (NewJSON x out0 L lay) = logger.level (newLogger x out0 L lay) \<and>
   (\<forall>evs w w'. execs x evs w = Inr w' \<longrightarrow> logger.level (lg w') = logger.level (lg w)) \<and>
   (\<forall>w w'. logger_Close x w = Inr w' \<longrightarrow> logger.level (lg w') = logger.level (lg w)) \<and>
   (\<forall>f fs w f' w'. fieldLogger_WithFields f fs w = (f', w') \<longrightarrow> lg w' = lg w)"
proof -
  have "logger.level (newLogger x out0 L lay) =
     (if L < NoLevel then NoLevel else if DebugLevel < L then DebugLevel else L)"
    by (simp add: newLogger_def Let_def)
  moreover have "NoLevel \<le> DebugLevel" by (simp add: level_defs)
  ultimately show ?thesis
    using execs_level logger_Close_level fieldLogger_WithFields_lg
    by (auto simp: NewText_def NewJSON_def)
qed

theorem newLogger_level_clamped_witness:
  "logger.level (newLogger goLib None 9 []) = DebugLevel \<and>
   logger.level (newLogger goLib None (- 3) []) = NoLevel \<and>
   \<not> isl (execs goLib [CloseChan, Recv] (boot (NewText goLib None 9 [] []))) \<and>
   logger.level (lg (projr (execs goLib [CloseChan, Recv] (boot (NewText goLib None 9 [] []))))) =
     DebugLevel \<and>
   \<not> isl (logger_Close goLib (boot (NewText goLib None 9 [] []))) \<and>
   logger.level (lg (projr (logger_Close goLib (boot (NewText goLib None 9 [] []))))) =
     DebugLevel \<and>
   logger.level (lg (snd (fieldLogger_WithFields (FieldLogger None) None
       (boot (NewText goLib None 9 [] []))))) = DebugLevel"
proof -
  let ?w0 = "boot (NewText goLib None 9 [] [])"
  have ok2: "\<not> isl (logger_Close goLib ?w0)"
    by (simp add: logger_Close_def closeEntChan_def boot_def NewText_def newLogger_def)
  then have cl: "logger_Close goLib ?w0 = Inr (projr (logger_Close goLib ?w0))"
    by (cases "logger_Close goLib ?w0") simp_all
  have wf: "fieldLogger_WithFields (FieldLogger None) None ?w0 =
      (fst (fieldLogger_WithFields (FieldLogger None) None ?w0),
       snd (fieldLogger_WithFields (FieldLogger None) None ?w0))"
    by simp
  have ok: "\<not> isl (execs goLib [CloseChan, Recv] ?w0)"
    by (simp add: exec_def closeEntChan_def run_step_def boot_def NewText_def newLogger_def)
  then have run: "execs goLib [CloseChan, Recv] ?w0 = Inr (projr (execs goLib [CloseChan, Recv] ?w0))"
    by (cases "execs goLib [CloseChan, Recv] ?w0") simp_all
  note c = newLogger_level_clamped [of goLib None 9 "[]" "[]"]
  note d = newLogger_level_clamped [of goLib None "- 3" "[]" "[]"]
  from c have keep: "logger.level (lg (projr (execs goLib [CloseChan, Recv] ?w0))) = logger.level (lg ?w0)"
    using run by blast
  from c have "logger.level (lg ?w0) = DebugLevel"
    by (simp add: boot_def level_defs)
  moreover from c have "logger.level (newLogger goLib None 9 []) = DebugLevel"
    by (simp add: level_defs)
  moreover from d have "logger.level (newLogger goLib None (- 3) []) = NoLevel"
    by (simp add: level_defs)
  moreover from c cl
  have "logger.level (lg (projr (logger_Close goLib ?w0))) = logger.level (lg ?w0)"
    by blast
  moreover from c wf
  have "lg (snd (fieldLogger_WithFields (FieldLogger None) None ?w0)) = lg ?w0"
    by blast
  ultimately show ?thesis using ok ok2 keep by simp
qed

section \<open>Level policy\<close>

text \<open>
  Claim C1. For every configured threshold \<open>T\<close> (the level of the logger, which
  construction clamps to \<open>NoLevel\<close> or above) and every severity \<open>S\<close>, \<open>LogableAt\<close> is true
  exactly when \<open>T\<close> is \<open>NoLevel\<close>, or \<open>S\<close> is \<open>NoLevel\<close>, or \<open>S \<le> T\<close> in the numeric order
  of the levels, Panic 1 to Debug 6; and when it is false, \<open>log\<close>, \<open>logln\<close> and \<open>logf\<close>
  return with the world as it was: nothing is sent to the channel.
\<close>

theorem LogableAt_policy:
  assumes "NoLevel \<le> logger.level (lg w)"
  shows "(LogableAt (lg w) S \<longleftrightarrow>
            logger.level (lg w) = NoLevel \<or> S = NoLevel \<or> S \<le> logger.level (lg w)) \<and>
         (\<not> LogableAt (lg w) S \<longrightarrow>
            logger_log now fs S v w = Inr w \<and>
            logger_logln now fs S v w = Inr w \<and>
            logger_logf now fs S fmt v w = Inr w) \<and>
         [PanicLevel, FatalLevel, ErrorLevel, WarnLevel, InfoLevel, DebugLevel] =
            [1, 2, 3, 4, 5, 6]"
  using assms
  by (auto simp: LogableAt_def logger_log_def logger_logln_def logger_logf_def level_defs)

theorem LogableAt_policy_witness:
  "NoLevel \<le> logger.level (lg (boot (NewText goLib None WarnLevel [] []))) \<and>
   \<not> LogableAt (lg (boot (NewText goLib None WarnLevel [] []))) DebugLevel \<and>
   LogableAt (lg (boot (NewText goLib None WarnLevel [] []))) ErrorLevel \<and>
   logger_log 0 None DebugLevel [VString ''x''] (boot (NewText goLib None WarnLevel [] [])) =
     Inr (boot (NewText goLib None WarnLevel [] []))"
proof -
  let ?w0 = "boot (NewText goLib None WarnLevel [] [])"
  have lv: "logger.level (lg ?w0) = WarnLevel"
    by (simp add: boot_def NewText_def newLogger_def level_defs)
  then have h: "NoLevel \<le> logger.level (lg ?w0)"
    by (simp add: level_defs)
  from LogableAt_policy [OF h, of DebugLevel 0 None "[VString ''x'']"]
       LogableAt_policy [OF h, of ErrorLevel]
  show ?thesis using lv h by (simp add: level_defs)
qed

section \<open>Text encoder\<close>

lemma fold_append_concat:
  "fold (\<lambda>(k, v) b. b @ g k v) m b0 = b0 @ concat (map (\<lambda>(k, v). g k v) m)"
  by (induction m arbitrary: b0) (auto split: prod.splits)

lemma levelNamesText_label:
  assumes "T \<noteq> NoLevel" "S \<noteq> NoLevel" "NoLevel \<le> S" "S \<le> DebugLevel"
  shows "index levelNamesText S = Inr (spec_label T S)"
proof -
  from level_cases [OF assms(3,4)] assms(2)
  have "S \<in> {PanicLevel, FatalLevel, ErrorLevel, WarnLevel, InfoLevel, DebugLevel}" by auto
  with assms(1) show ?thesis
    by (auto simp: index_def levelNamesText_def spec_label_def level_defs)
qed

lemma writeText_result:
  assumes "NoLevel \<le> entry.level ent" and "entry.level ent \<le> DebugLevel"
    and "Sprintln x (args ent) \<noteq> []"
  shows "writeText x ent w =
           Inr (w\<lparr> lg := (lg w)\<lparr> buf := spec_text_line x (lg w) (readMap w (flds ent)) ent \<rparr>,
                   written := written w @ [spec_text_line x (lg w) (readMap w (flds ent)) ent] \<rparr>)"
proof (cases "logger.level (lg w) \<noteq> NoLevel \<and> entry.level ent \<noteq> NoLevel")
  case True
  then have "index levelNamesText (entry.level ent) =
      Inr (spec_label (logger.level (lg w)) (entry.level ent))"
    using levelNamesText_label assms(1,2) by blast
  with True assms(3) show ?thesis
    unfolding writeText_def Let_def spec_text_line_def spec_message_def
    by (simp add: fold_append_concat butlast_append)
next
  case False
  then have "spec_label (logger.level (lg w)) (entry.level ent) = '' ''"
    by (auto simp: spec_label_def)
  with False assms(3) show ?thesis
    unfolding writeText_def Let_def spec_text_line_def spec_message_def
    by (auto simp add: fold_append_concat butlast_append)
qed

text \<open>
  Claim C4. For every entry (its level is \<open>NoLevel\<close> or one of the six levels, and
  \<^verbatim>\<open>Sprintln\<close> never gives the empty string), the text encoder writes, in one call,
  exactly: the prefix, the formatted timestamp unless the layout is empty, the padded
  label of the entry's level when neither the logger's level nor the entry's is
  \<open>NoLevel\<close> and one space otherwise, the rendered message, \<^verbatim>\<open> (k=v)\<close> for each field
  of the entry's map in the order of the map, and one newline.
\<close>

theorem writeText_line:
  assumes "NoLevel \<le> entry.level ent" and "entry.level ent \<le> DebugLevel"
    and "Sprintln x (args ent) \<noteq> []"
  shows "writeText x ent w =
           Inr (w\<lparr> lg := (lg w)\<lparr> buf := spec_text_line x (lg w) (readMap w (flds ent)) ent \<rparr>,
                   written := written w @ [spec_text_line x (lg w) (readMap w (flds ent)) ent] \<rparr>)"
  using assms by (rule writeText_result)

theorem writeText_line_witness:
  "NoLevel \<le> entry.level ex_text_entry \<and> entry.level ex_text_entry \<le> DebugLevel \<and>
   Sprintln goLib (args ex_text_entry) \<noteq> [] \<and>
   written (projr (writeText goLib ex_text_entry ex_text_world)) =
     [''happylog  INFO hello (foo=bar)'' @ [CHR 0x0A]]"
proof -
  have h1: "NoLevel \<le> entry.level ex_text_entry"
   and h2: "entry.level ex_text_entry \<le> DebugLevel"
   and h3: "Sprintln goLib (args ex_text_entry) \<noteq> []"
    by (simp_all add: ex_text_entry_def level_defs goLib_def)
  have "spec_text_line goLib (lg ex_text_world) (readMap ex_text_world (flds ex_text_entry))
          ex_text_entry = ''happylog  INFO hello (foo=bar)'' @ [CHR 0x0A]"
    by (simp add: spec_text_line_def spec_label_def spec_message_def ex_text_world_def
        ex_text_entry_def newFields_def boot_def NewText_def newLogger_def readMap_def
        goLib_def goTrimSpace_def isSpace_def level_defs)
  with writeText_line [OF h1 h2 h3, of ex_text_world] h1 h2 h3 show ?thesis
    by (simp add: ex_text_world_def newFields_def boot_def)
qed

section \<open>JSON encoder: reserved keys\<close>

lemma map_of_setKey: "map_of (setKey k v m) = (map_of m)(k \<mapsto> v)"
  by (simp add: setKey_def update_conv')

lemma map_of_keepUnder:
  "map_of (keepUnder k extk m) =
     (case map_of m k of Some v \<Rightarrow> (map_of m)(extk \<mapsto> v) | None \<Rightarrow> map_of m)"
  by (simp add: keepUnder_def map_of_setKey split: option.splits)

lemma fold_errors:
  assumes "distinct (map fst xs)"
  shows "map_of (fold (\<lambda>(k, v) m'. case v of VError e \<Rightarrow> setKey k (VString e) m' | _ \<Rightarrow> m') xs acc) k =
           (case map_of xs k of Some (VError e) \<Rightarrow> Some (VString e) | _ \<Rightarrow> map_of acc k)"
  using assms
proof (induction xs arbitrary: acc)
  case Nil
  then show ?case by simp
next
  case (Cons kv xs)
  obtain k0 v0 where kv: "kv = (k0, v0)" by (cases kv)
  from Cons.prems kv have d: "distinct (map fst xs)" and n: "k0 \<notin> fst ` set xs" by auto
  from n have none: "map_of xs k0 = None" by (simp add: map_of_eq_None_iff)
  show ?case
  proof (cases "k = k0")
    case True
    with none kv Cons.IH [OF d] show ?thesis
      by (cases v0) (simp_all add: map_of_setKey)
  next
    case False
    with kv Cons.IH [OF d] show ?thesis
      by (cases v0) (simp_all add: map_of_setKey split: option.splits val.splits)
  qed
qed

lemma map_of_errorsToStrings:
  assumes "distinct (map fst m)"
  shows "map_of (errorsToStrings m) k = map_option errorText (map_of m k)"
  unfolding errorsToStrings_def fold_errors [OF assms]
  by (auto simp: errorText_def split: option.splits val.splits)

lemma Level_String_total:
  assumes "NoLevel \<le> lvl" "lvl \<le> DebugLevel"
  shows "\<exists>name. Level_String lvl = Inr name"
  using assms by (simp add: Level_String_def index_def levelNames_def level_defs)

lemmas field_names =
  levelField_def extLevelField_def msgField_def extMsgField_def timeField_def extTimeField_def

lemma addReserved_keys:
  assumes "Level_String (entry.level ent) = Inr name"
  shows "\<exists>m. addReserved x a ent m0 = Inr m \<and>
     (tsLayout a \<noteq> [] \<longrightarrow>
        map_of m timeField = Some (VString (Format x (ts ent) (tsLayout a))) \<and>
        (\<forall>v. map_of m0 timeField = Some v \<longrightarrow> map_of m extTimeField = Some v)) \<and>
     (logger.level a \<noteq> NoLevel \<and> entry.level ent \<noteq> NoLevel \<longrightarrow>
        map_of m levelField = Some (VString name) \<and>
        (\<forall>v. map_of m0 levelField = Some v \<longrightarrow> map_of m extLevelField = Some v)) \<and>
     map_of m msgField = Some (VString (spec_msg_json x ent)) \<and>
     (\<forall>v. map_of m0 msgField = Some v \<longrightarrow> map_of m extMsgField = Some v)"
  using assms unfolding addReserved_def Let_def spec_msg_json_def
  by (auto simp: map_of_setKey map_of_keepUnder field_names split: option.splits)

lemma errorsToStrings_Nil: "errorsToStrings [] = []"
  by (simp add: errorsToStrings_def)

lemma writeJSON_marshalled:
  assumes "jsonObject x ent w = Inr m" and "Marshal x m = Inr enc"
  shows "\<exists>w'. writeJSON x ent w = Inr w' \<and> written w' = written w @ [enc @ [CHR 0x0A]] \<and>
           printed w' = printed w \<and> lg w' = lg w"
  using assms unfolding writeJSON_def jsonObject_def readMap_def newFields_def
  by (cases "flds ent") (simp_all add: errorsToStrings_Nil)

lemma writeJSON_dropped:
  assumes "jsonObject x ent w = Inr m" and "Marshal x m = Inl err"
  shows "\<exists>w'. writeJSON x ent w = Inr w' \<and> written w' = written w \<and>
           printed w' = printed w @
             [Sprintln x [VString ''Failed to marshal fields to JSON:'', VError err]] \<and>
           lg w' = lg w"
  using assms unfolding writeJSON_def jsonObject_def readMap_def newFields_def
  by (cases "flds ent") (simp_all add: errorsToStrings_Nil)

text \<open>
  Claim C5. For every field set given to the JSON encoder (a Go map: its keys are
  distinct) and every entry, the object that is marshalled and written has, for each
  reserved key the encoder computes for the entry (\<^verbatim>\<open>time\<close> when the layout is not empty,
  \<^verbatim>\<open>level\<close> when neither the logger's nor the entry's level is \<open>NoLevel\<close>, \<^verbatim>\<open>msg\<close>
  always), the computed value under the reserved key and, when the field set had a value
  under that key, that value under the key \<^verbatim>\<open>fields.<key>\<close> (in the form in which every
  field value is encoded: an error as its text). The example of the claim, an Info call
  with the field \<^verbatim>\<open>level\<close> set to \<^verbatim>\<open>custom\<close>, is the witness.
\<close>

theorem jsonObject_reserved_keys:
  assumes "distinct (map fst (readMap w (flds ent)))"
    and "NoLevel \<le> entry.level ent" and "entry.level ent \<le> DebugLevel"
  shows "\<exists>m name.
     jsonObject x ent w = Inr m \<and> Level_String (entry.level ent) = Inr name \<and>
     (\<forall>enc. Marshal x m = Inr enc \<longrightarrow>
        (\<exists>w'. writeJSON x ent w = Inr w' \<and> written w' = written w @ [enc @ [CHR 0x0A]])) \<and>
     (tsLayout (lg w) \<noteq> [] \<longrightarrow>
        map_of m timeField = Some (VString (Format x (ts ent) (tsLayout (lg w)))) \<and>
        (\<forall>v. map_of (readMap w (flds ent)) timeField = Some v \<longrightarrow>
             map_of m extTimeField = Some (errorText v))) \<and>
     (logger.level (lg w) \<noteq> NoLevel \<and> entry.level ent \<noteq> NoLevel \<longrightarrow>
        map_of m levelField = Some (VString name) \<and>
        (\<forall>v. map_of (readMap w (flds ent)) levelField = Some v \<longrightarrow>
             map_of m extLevelField = Some (errorText v))) \<and>
     map_of m msgField = Some (VString (spec_msg_json x ent)) \<and>
     (\<forall>v. map_of (readMap w (flds ent)) msgField = Some v \<longrightarrow>
          map_of m extMsgField = Some (errorText v))"
proof -
  from Level_String_total [OF assms(2,3)]
  obtain name where name: "Level_String (entry.level ent) = Inr name" by blast
  let ?m0 = "errorsToStrings (readMap w (flds ent))"
  from addReserved_keys [OF name, of x "lg w" ?m0]
  obtain m where m: "addReserved x (lg w) ent ?m0 = Inr m"
    and t: "tsLayout (lg w) \<noteq> [] \<longrightarrow>
        map_of m timeField = Some (VString (Format x (ts ent) (tsLayout (lg w)))) \<and>
        (\<forall>v. map_of ?m0 timeField = Some v \<longrightarrow> map_of m extTimeField = Some v)"
    and l: "logger.level (lg w) \<noteq> NoLevel \<and> entry.level ent \<noteq> NoLevel \<longrightarrow>
        map_of m levelField = Some (VString name) \<and>
        (\<forall>v. map_of ?m0 levelField = Some v \<longrightarrow> map_of m extLevelField = Some v)"
    and g: "map_of m msgField = Some (VString (spec_msg_json x ent))"
    and h: "\<forall>v. map_of ?m0 msgField = Some v \<longrightarrow> map_of m extMsgField = Some v"
    by blast
  have obj: "jsonObject x ent w = Inr m" using m by (simp add: jsonObject_def)
  have conv: "map_of ?m0 k = Some (errorText v)" if "map_of (readMap w (flds ent)) k = Some v" for k v
    using that by (simp add: map_of_errorsToStrings [OF assms(1)])
  have wr: "\<forall>enc. Marshal x m = Inr enc \<longrightarrow>
        (\<exists>w'. writeJSON x ent w = Inr w' \<and> written w' = written w @ [enc @ [CHR 0x0A]])"
    using writeJSON_marshalled [OF obj] by blast
  from obj name wr t l g h conv show ?thesis by blast
qed

lemma ex_json_world_simps:
  "lg ex_json_world = NewJSON goLib None DebugLevel '' ''"
  "maps ex_json_world 0 = [(''level'', VString ''custom'')]"
  "written ex_json_world = []"
  "printed ex_json_world = []"
  "nextMap ex_json_world = 1"
  by (simp_all add: ex_json_world_def newFields_def boot_def)

lemma NewJSON_simps:
  "tsLayout (NewJSON goLib out0 L '' '') = []"
  "writeFunc (NewJSON goLib out0 L lay) = Some WriteJSON"
  "entChan (NewJSON goLib out0 L lay) = []"
  "entChanClosed (NewJSON goLib out0 L lay) = False"
  "doneChan (NewJSON goLib out0 L lay) = False"
  "logger.level (NewJSON goLib out0 6 lay) = 6"
  by (simp_all add: NewJSON_def newLogger_def goLib_def goTrimSpace_def isSpace_def level_defs)

theorem jsonObject_reserved_keys_witness:
  "distinct (map fst (readMap ex_json_world (flds ex_json_entry))) \<and>
   NoLevel \<le> entry.level ex_json_entry \<and> entry.level ex_json_entry \<le> DebugLevel \<and>
   map_of (projr (jsonObject goLib ex_json_entry ex_json_world)) ''level'' =
     Some (VString ''info'') \<and>
   map_of (projr (jsonObject goLib ex_json_entry ex_json_world)) ''fields.level'' =
     Some (VString ''custom'')"
proof -
  have h1: "distinct (map fst (readMap ex_json_world (flds ex_json_entry)))"
   and h2: "NoLevel \<le> entry.level ex_json_entry"
   and h3: "entry.level ex_json_entry \<le> DebugLevel"
    by (simp_all add: ex_json_entry_def readMap_def ex_json_world_simps level_defs)
  from jsonObject_reserved_keys [OF h1 h2 h3, of goLib]
  obtain m name where obj: "jsonObject goLib ex_json_entry ex_json_world = Inr m"
    and name: "Level_String (entry.level ex_json_entry) = Inr name"
    and l: "logger.level (lg ex_json_world) \<noteq> NoLevel \<and> entry.level ex_json_entry \<noteq> NoLevel \<longrightarrow>
        map_of m levelField = Some (VString name) \<and>
        (\<forall>v. map_of (readMap ex_json_world (flds ex_json_entry)) levelField = Some v \<longrightarrow>
             map_of m extLevelField = Some (errorText v))"
    by blast
  have "Level_String (entry.level ex_json_entry) = Inr ''info''"
    by (simp add: ex_json_entry_def Level_String_def index_def levelNames_def level_defs)
  with name have n: "name = ''info''" by simp
  have lv: "logger.level (lg ex_json_world) \<noteq> NoLevel \<and> entry.level ex_json_entry \<noteq> NoLevel"
    by (simp add: ex_json_world_simps NewJSON_def newLogger_def ex_json_entry_def level_defs)
  have old: "map_of (readMap ex_json_world (flds ex_json_entry)) levelField = Some (VString ''custom'')"
    by (simp add: ex_json_entry_def readMap_def ex_json_world_simps levelField_def)
  from l lv old n have "map_of m levelField = Some (VString ''info'')"
    and "map_of m extLevelField = Some (errorText (VString ''custom''))" by blast+
  with obj h1 h2 h3 show ?thesis
    by (simp add: levelField_def extLevelField_def errorText_def)
qed

section \<open>JSON encoder: marshalling failure\<close>

lemma jsonObject_entChan:
  "jsonObject x ent (w\<lparr> lg := (lg w)\<lparr> entChan := es \<rparr> \<rparr>) = jsonObject x ent w"
  by (cases "flds ent") (simp_all add: jsonObject_def addReserved_def readMap_def)

lemma ex_chan_world_simps:
  "written ex_chan_world = []" "printed ex_chan_world = []"
  "maps ex_chan_world 0 = [(''c'', VChan)]"
  "nextMap ex_chan_world = 1"
  "lg ex_chan_world = (NewJSON goLib (Some (Writer 0)) NoLevel '' '')\<lparr> entChan :=
     [\<lparr> ts = 0, level = 0, format = [], args = [VString ''x''], flds = Some 0, ln = False \<rparr>,
      \<lparr> ts = 0, level = 0, format = [], args = [VString ''y''], flds = None, ln = False \<rparr>] \<rparr>"
  by (simp_all add: ex_chan_world_def newFields_def boot_def fieldLogger_Print_def
      logger_Print_def logger_WithFields_def send_def entCap_def NewJSON_simps)

section \<open>Scoped loggers: merging\<close>

lemma map_of_fold_setKey:
  assumes "distinct (map fst xs)"
  shows "map_of (fold (\<lambda>(k, v) m. setKey k v m) xs acc) = map_of acc ++ map_of xs"
  using assms
proof (induction xs arbitrary: acc)
  case Nil
  then show ?case by simp
next
  case (Cons kv xs)
  obtain k v where kv: "kv = (k, v)" by (cases kv)
  from Cons.prems kv have d: "distinct (map fst xs)" and n: "map_of xs k = None"
    by (auto simp: map_of_eq_None_iff)
  have "map_of (fold (\<lambda>(k, v) m. setKey k v m) (kv # xs) acc) =
        (map_of acc)(k \<mapsto> v) ++ map_of xs"
    using Cons.IH [OF d, of "setKey k v acc"] kv by (simp only: fold_Cons comp_apply prod.case map_of_setKey)
  also have "\<dots> = map_of acc ++ map_of (kv # xs)"
    using n kv by (auto simp: map_add_def fun_eq_iff split: option.splits)
  finally show ?case .
qed

lemma fieldLogger_WithFields_result:
  assumes "distinct (map fst (readMap w (fields f)))" and "distinct (map fst (readMap w fs))"
    and "\<forall>p. fields f = Some p \<longrightarrow> p < nextMap w" and "\<forall>p. fs = Some p \<longrightarrow> p < nextMap w"
  shows "\<exists>w'. fieldLogger_WithFields f fs w = (FieldLogger (Some (nextMap w)), w') \<and>
           map_of (maps w' (nextMap w)) = map_of (readMap w (fields f)) ++ map_of (readMap w fs) \<and>
           (\<forall>p. p \<noteq> nextMap w \<longrightarrow> maps w' p = maps w p) \<and>
           nextMap w' = Suc (nextMap w) \<and> lg w' = lg w \<and>
           written w' = written w \<and> printed w' = printed w"
proof -
  let ?w1 = "snd (newFields [] w)"
  have r1: "readMap ?w1 (fields f) = readMap w (fields f)"
    using assms(3) by (cases "fields f") (auto simp: readMap_def newFields_def)
  have r2: "readMap ?w1 fs = readMap w fs"
    using assms(4) by (cases fs) (auto simp: readMap_def newFields_def)
  have e: "maps ?w1 (nextMap w) = []" by (simp add: newFields_def)
  show ?thesis
    unfolding fieldLogger_WithFields_def Let_def
    using r1 r2 e assms(1,2)
    by (simp add: newFields_def map_of_fold_setKey split: prod.splits)
qed

text \<open>
  Claim C6. For maps \<open>A\<close>, \<open>B\<close> (Go maps: distinct keys, at allocated addresses or nil)
  and a map \<open>M\<close> that holds the merge of \<open>A\<close> and \<open>B\<close> with \<open>B\<close> shadowing \<open>A\<close>:
  \<^verbatim>\<open>base.WithFields(A).WithFields(B)\<close> gives a scoped logger whose field set is, as a
  mapping, that of \<^verbatim>\<open>base.WithFields(M)\<close>, namely the merge; its map is at a fresh
  address and is what its entries carry; the receiver still refers to \<open>A\<close>, and \<open>A\<close>, \<open>B\<close>
  and the logger are as they were.
\<close>

theorem WithFields_merge:
  assumes "distinct (map fst (readMap w rA))" and "distinct (map fst (readMap w rB))"
    and "\<forall>p. rA = Some p \<longrightarrow> p < nextMap w" and "\<forall>p. rB = Some p \<longrightarrow> p < nextMap w"
    and "map_of (readMap w rM) = spec_merge (readMap w rA) (readMap w rB)"
    and "\<forall>p. rM = Some p \<longrightarrow> p < nextMap w"
  shows "\<exists>f2 w'. fieldLogger_WithFields (logger_WithFields rA) rB w = (f2, w') \<and>
           map_of (readMap w' (fields f2)) = map_of (readMap w' (fields (logger_WithFields rM))) \<and>
           map_of (readMap w' (fields f2)) = spec_merge (readMap w rA) (readMap w rB) \<and>
           fields f2 = Some (nextMap w) \<and>
           fields (logger_WithFields rA) = rA \<and>
           readMap w' rA = readMap w rA \<and> readMap w' rB = readMap w rB \<and>
           lg w' = lg w \<and>
           (\<forall>now v. fieldLogger_Print f2 now v w' =
              send \<lparr> ts = now, level = 0, format = [], args = v, flds = Some (nextMap w),
                     ln = False \<rparr> w')"
proof -
  have f: "fields (logger_WithFields rA) = rA" by (simp add: logger_WithFields_def)
  from fieldLogger_WithFields_result [of w "logger_WithFields rA" rB] assms(1-4) f
  obtain w' where 1: "fieldLogger_WithFields (logger_WithFields rA) rB w =
        (FieldLogger (Some (nextMap w)), w')"
    and 2: "map_of (maps w' (nextMap w)) = map_of (readMap w rA) ++ map_of (readMap w rB)"
    and 3: "\<forall>p. p \<noteq> nextMap w \<longrightarrow> maps w' p = maps w p"
    and 4: "lg w' = lg w"
    by auto
  have keep: "readMap w' r = readMap w r" if "\<forall>p. r = Some p \<longrightarrow> p < nextMap w" for r
    using that 3 by (cases r) (auto simp: readMap_def)
  have "map_of (readMap w' (fields (logger_WithFields rM))) = spec_merge (readMap w rA) (readMap w rB)"
    using keep [OF assms(6)] assms(5) by (simp add: logger_WithFields_def)
  with 1 2 4 f keep [OF assms(3)] keep [OF assms(4)] show ?thesis
    by (simp add: readMap_def spec_merge_def fieldLogger_Print_def)
qed

lemma ex_merge_world_simps:
  "maps ex_merge_world 0 = [(''foo'', VString ''bar''), (''baz'', VString ''quz'')]"
  "maps ex_merge_world (Suc 0) = [(''baz'', VInt 7), (''July'', VInt 7)]"
  "maps ex_merge_world 2 = [(''July'', VInt 7), (''foo'', VString ''bar''), (''baz'', VInt 7)]"
  "nextMap ex_merge_world = 3"
  by (simp_all add: ex_merge_world_def newFields_def boot_def)

theorem WithFields_merge_witness:
  "distinct (map fst (readMap ex_merge_world (Some 0))) \<and>
   distinct (map fst (readMap ex_merge_world (Some 1))) \<and>
   map_of (readMap ex_merge_world (Some 2)) =
     spec_merge (readMap ex_merge_world (Some 0)) (readMap ex_merge_world (Some 1)) \<and>
   fields (fst (fieldLogger_WithFields (logger_WithFields (Some 0)) (Some 1) ex_merge_world)) = Some 3 \<and>
   map_of (maps (snd (fieldLogger_WithFields (logger_WithFields (Some 0)) (Some 1) ex_merge_world)) 3) =
     map_of (maps ex_merge_world 2) \<and>
   map_of (maps (snd (fieldLogger_WithFields (logger_WithFields (Some 0)) (Some 1) ex_merge_world)) 3)
     ''baz'' = Some (VInt 7)"
proof -
  have h1: "distinct (map fst (readMap ex_merge_world (Some 0)))"
   and h2: "distinct (map fst (readMap ex_merge_world (Some 1)))"
   and h3: "\<forall>p. Some (0::nat) = Some p \<longrightarrow> p < nextMap ex_merge_world"
   and h4: "\<forall>p. Some (1::nat) = Some p \<longrightarrow> p < nextMap ex_merge_world"
   and h6: "\<forall>p. Some (2::nat) = Some p \<longrightarrow> p < nextMap ex_merge_world"
    by (simp_all add: readMap_def ex_merge_world_simps)
  have h5: "map_of (readMap ex_merge_world (Some 2)) =
     spec_merge (readMap ex_merge_world (Some 0)) (readMap ex_merge_world (Some 1))"
    by (auto simp: readMap_def ex_merge_world_simps spec_merge_def fun_eq_iff map_add_def)
  from WithFields_merge [OF h1 h2 h3 h4 h5 h6]
  obtain f2 w' where r: "fieldLogger_WithFields (logger_WithFields (Some 0)) (Some 1) ex_merge_world = (f2, w')"
    and a: "map_of (readMap w' (fields f2)) = map_of (readMap w' (fields (logger_WithFields (Some 2))))"
    and b: "map_of (readMap w' (fields f2)) =
              spec_merge (readMap ex_merge_world (Some 0)) (readMap ex_merge_world (Some 1))"
    and c: "fields f2 = Some (nextMap ex_merge_world)"
    by blast
  from a b c h5 have "map_of (maps w' 3) = map_of (maps ex_merge_world 2)"
    by (simp add: readMap_def ex_merge_world_simps)
  moreover from this have "map_of (maps w' 3) ''baz'' = Some (VInt 7)"
    by (simp add: ex_merge_world_simps)
  ultimately show ?thesis using r c h1 h2 h5 by (simp add: ex_merge_world_simps)
qed

section \<open>Field maps are shared, not copied\<close>

lemma send_world:
  assumes "send e w = Inr w'"
  shows "w' = w\<lparr> lg := (lg w)\<lparr> entChan := entChan (lg w) @ [e] \<rparr> \<rparr>"
  using assms by (auto simp: send_def split: if_splits)

text \<open>
  The text encoder, the sends, the close and \<open>WithFields\<close> store into no existing map:
  under the text encoder no execution changes a map.
\<close>

lemma writeText_maps:
  assumes "writeText x ent w = Inr w'"
  shows "maps w' = maps w \<and> nextMap w' = nextMap w"
  using assms unfolding writeText_def Let_def
  by (auto split: sum.splits if_splits)

lemma exec_writeFunc:
  assumes "exec x ev w = Inr w'"
  shows "writeFunc (lg w') = writeFunc (lg w)"
proof (cases ev)
  case (Send e)
  with assms show ?thesis by (auto simp: exec_def dest: send_world)
next
  case Recv
  show ?thesis
  proof (cases "entChan (lg w)")
    case Nil
    with Recv assms show ?thesis by (auto simp: exec_def run_step_def split: if_splits)
  next
    case (Cons ent es)
    with Recv assms have "callWriteFunc x ent (w\<lparr> lg := (lg w)\<lparr> entChan := es \<rparr> \<rparr>) = Inr w'"
      by (auto simp: exec_def run_step_def split: if_splits)
    from callWriteFunc_lg [OF this] show ?thesis by auto
  qed
next
  case CloseChan
  with assms show ?thesis by (auto simp: exec_def closeEntChan_def split: if_splits)
qed

lemma exec_text_maps:
  assumes "writeFunc (lg w) = Some WriteText" and "exec x ev w = Inr w'"
  shows "maps w' = maps w \<and> nextMap w' = nextMap w"
proof (cases ev)
  case (Send e)
  with assms show ?thesis by (auto simp: exec_def dest: send_world)
next
  case Recv
  show ?thesis
  proof (cases "entChan (lg w)")
    case Nil
    with Recv assms show ?thesis by (auto simp: exec_def run_step_def split: if_splits)
  next
    case (Cons ent es)
    with Recv assms have "writeText x ent (w\<lparr> lg := (lg w)\<lparr> entChan := es \<rparr> \<rparr>) = Inr w'"
      by (auto simp: exec_def run_step_def callWriteFunc_def split: if_splits)
    from writeText_maps [OF this] show ?thesis by simp
  qed
next
  case CloseChan
  with assms show ?thesis by (auto simp: exec_def closeEntChan_def split: if_splits)
qed

lemma execs_text_maps:
  "writeFunc (lg w) = Some WriteText \<Longrightarrow> execs x evs w = Inr w' \<Longrightarrow>
     maps w' = maps w \<and> nextMap w' = nextMap w"
proof (induction evs arbitrary: w)
  case Nil
  then show ?case by simp
next
  case (Cons ev evs)
  from Cons.prems(2) obtain w1 where 1: "exec x ev w = Inr w1" and 2: "execs x evs w1 = Inr w'"
    by (auto split: sum.splits)
  from exec_writeFunc [OF 1] Cons.prems(1) have "writeFunc (lg w1) = Some WriteText" by simp
  from Cons.IH [OF this 2] exec_text_maps [OF Cons.prems(1) 1] show ?case by simp
qed

lemma fieldLogger_WithFields_keeps:
  assumes "fieldLogger_WithFields f fs w = (f', w')"
  shows "(\<forall>p. p < nextMap w \<longrightarrow> maps w' p = maps w p) \<and> fields f' = Some (nextMap w)"
  using assms unfolding fieldLogger_WithFields_def Let_def newFields_def
  by (auto split: prod.splits)

lemma ex_json_logger:
  "lg ex_json_world =
     \<lparr> buf = [], entChan = [], entChanClosed = False, doneChan = False,
       writeFunc = Some WriteJSON, out = OsStdout, level = 6, tsLayout = [], prefix = [] \<rparr>"
  by (simp add: ex_json_world_simps NewJSON_def newLogger_def goLib_def goTrimSpace_def
      isSpace_def level_defs)

lemma ex_shared_world_eq:
  "ex_shared_world = ex_json_world\<lparr> lg := (lg ex_json_world)\<lparr> entChan :=
     [\<lparr> ts = 0, level = InfoLevel, format = [], args = [VString ''one''], flds = Some 0, ln = False \<rparr>,
      \<lparr> ts = 0, level = InfoLevel, format = [], args = [VString ''two''], flds = Some 0, ln = False \<rparr>] \<rparr> \<rparr>"
  by (simp add: ex_shared_world_def ex_scoped_def fieldLogger_Info_def logger_log_def LogableAt_def
      logger_WithFields_def send_def entCap_def ex_json_logger level_defs)

text \<open>
  Claim C2 at a scoped logger used twice under the JSON encoder: \<^verbatim>\<open>NewJSON\<close>,
  \<^verbatim>\<open>WithFields({"level": "custom"})\<close>, two Info calls, \<open>Close\<close>. Both entries refer to
  the map of the scoped logger, and \<open>writeJSON\<close> stores into it. Once the consumer has
  encoded the first entry, the map of the second, still in the channel, and of the scoped
  logger holds \<^verbatim>\<open>level\<close>, \<^verbatim>\<open>fields.level\<close> and \<^verbatim>\<open>msg\<close> of the first entry: the field set
  has changed after construction. The second line written has \<^verbatim>\<open>fields.level\<close> set to
  \<^verbatim>\<open>info\<close>, the value \<^verbatim>\<open>custom\<close> being lost, and \<^verbatim>\<open>fields.msg\<close> set to the first
  message.
\<close>

theorem writeJSON_changes_shared_map:
  "map flds (entChan (lg ex_shared_world)) = [fields ex_scoped, fields ex_scoped] \<and>
   readMap ex_shared_world (fields ex_scoped) = [(''level'', VString ''custom'')] \<and>
   map flds (entChan (lg (projr (run_step goLib ex_shared_world)))) = [fields ex_scoped] \<and>
   readMap (projr (run_step goLib ex_shared_world)) (fields ex_scoped) =
     [(''level'', VString ''info''), (''fields.level'', VString ''custom''),
      (''msg'', VString ''one'')] \<and>
   readMap (projr (run_step goLib ex_shared_world)) (fields ex_scoped) \<noteq>
     readMap ex_shared_world (fields ex_scoped) \<and>
   readMap (projr (logger_Close goLib ex_shared_world)) (fields ex_scoped) =
     [(''level'', VString ''info''), (''fields.level'', VString ''info''),
      (''msg'', VString ''two''), (''fields.msg'', VString ''one'')] \<and>
   written (projr (logger_Close goLib ex_shared_world)) =
     [''{'' @ inQuotes ''fields.level'' @ '':'' @ inQuotes ''custom'' @ '','' @
        inQuotes ''level'' @ '':'' @ inQuotes ''info'' @ '','' @
        inQuotes ''msg'' @ '':'' @ inQuotes ''one'' @ ''}'' @ [CHR 0x0A],
      ''{'' @ inQuotes ''fields.level'' @ '':'' @ inQuotes ''info'' @ '','' @
        inQuotes ''fields.msg'' @ '':'' @ inQuotes ''one'' @ '','' @
        inQuotes ''level'' @ '':'' @ inQuotes ''info'' @ '','' @
        inQuotes ''msg'' @ '':'' @ inQuotes ''two'' @ ''}'' @ [CHR 0x0A]]"
  by (simp add: ex_shared_world_eq ex_scoped_def logger_WithFields_def readMap_def run_step_def
      logger_Close_def closeEntChan_def
      callWriteFunc_def writeJSON_def addReserved_def errorsToStrings_def keepUnder_def setKey_def
      field_names Level_String_def index_def levelNames_def level_defs
      ex_json_world_simps(2-) ex_json_logger goLib_def goMarshal_def sortKeys_def newFields_def
      inQuotes_def)

lemma ex_text_logger:
  "lg ex_text_world =
     \<lparr> buf = [], entChan = [], entChanClosed = False, doneChan = False,
       writeFunc = Some WriteText, out = OsStdout, level = 6, tsLayout = [],
       prefix = ''happylog '' \<rparr>"
  by (simp add: ex_text_world_def newFields_def boot_def NewText_def newLogger_def goLib_def
      goTrimSpace_def isSpace_def level_defs)

lemma ex_text_world_simps:
  "maps ex_text_world 0 = [(''foo'', VString ''bar'')]"
  "nextMap ex_text_world = 1"
  "written ex_text_world = []"
  "printed ex_text_world = []"
  by (simp_all add: ex_text_world_def newFields_def boot_def)

section \<open>Closing flushes the channel in order\<close>

lemma sim_refl: "sim w w"
  by (simp add: sim_def)

lemma sim_sym: "sim w1 w2 \<Longrightarrow> sim w2 w1"
  by (simp add: sim_def)

lemma sim_trans: "sim w1 w2 \<Longrightarrow> sim w2 w3 \<Longrightarrow> sim w1 w3"
  by (simp add: sim_def)

lemma writeText_sim:
  assumes "sim w1 w2"
  shows "rel_sum (=) sim (writeText x ent w1) (writeText x ent w2)"
proof -
  from assms have r: "readMap w1 (flds ent) = readMap w2 (flds ent)"
    by (cases "flds ent") (simp_all add: readMap_def sim_def)
  from assms have c: "prefix (lg w1) = prefix (lg w2)" "tsLayout (lg w1) = tsLayout (lg w2)"
    "logger.level (lg w1) = logger.level (lg w2)" "written w1 = written w2"
    by (simp_all add: sim_def)
  show ?thesis
  proof (cases "index levelNamesText (entry.level ent)")
    case (Inl e)
    with r c assms show ?thesis
      unfolding writeText_def Let_def by (simp add: sim_def)
  next
    case (Inr s)
    with r c assms show ?thesis
      unfolding writeText_def Let_def by (simp add: sim_def)
  qed
qed

lemma writeJSON_sim:
  assumes "sim w1 w2"
  shows "rel_sum (=) sim (writeJSON x ent w1) (writeJSON x ent w2)"
proof -
  from assms have c: "maps w1 = maps w2" "nextMap w1 = nextMap w2"
    "tsLayout (lg w1) = tsLayout (lg w2)" "logger.level (lg w1) = logger.level (lg w2)"
    by (simp_all add: sim_def)
  have a: "addReserved x (lg w1) ent m = addReserved x (lg w2) ent m" for m
    using c by (simp add: addReserved_def)
  show ?thesis
  proof (cases "flds ent")
    case None
    show ?thesis
    proof (cases "addReserved x (lg w2) ent (errorsToStrings [])")
      case (Inl e)
      with None a c show ?thesis
        unfolding writeJSON_def Let_def newFields_def by simp
    next
      case (Inr m)
      with None a c assms show ?thesis
        unfolding writeJSON_def Let_def newFields_def
        by (cases "Marshal x m") (simp_all add: sim_def)
    qed
  next
    case (Some q)
    show ?thesis
    proof (cases "addReserved x (lg w2) ent (errorsToStrings (maps w2 q))")
      case (Inl e)
      with Some a c show ?thesis
        unfolding writeJSON_def Let_def by simp
    next
      case (Inr m)
      with Some a c assms show ?thesis
        unfolding writeJSON_def Let_def
        by (cases "Marshal x m") (simp_all add: sim_def)
    qed
  qed
qed

lemma callWriteFunc_sim:
  assumes "sim w1 w2"
  shows "rel_sum (=) sim (callWriteFunc x ent w1) (callWriteFunc x ent w2)"
proof -
  from assms have f: "writeFunc (lg w1) = writeFunc (lg w2)" by (simp add: sim_def)
  show ?thesis
  proof (cases "writeFunc (lg w2)")
    case None
    with f show ?thesis by (simp add: callWriteFunc_def)
  next
    case (Some fn)
    with f assms show ?thesis
      by (cases fn) (simp_all add: callWriteFunc_def writeText_sim writeJSON_sim)
  qed
qed

lemma encodeAll_sim:
  "sim w1 w2 \<Longrightarrow> rel_sum (=) sim (encodeAll x es w1) (encodeAll x es w2)"
proof (induction es arbitrary: w1 w2)
  case Nil
  then show ?case by simp
next
  case (Cons ent es)
  note r = callWriteFunc_sim [OF Cons.prems, of x ent]
  show ?case
  proof (cases "callWriteFunc x ent w1")
    case (Inl e)
    with r have "callWriteFunc x ent w2 = Inl e"
      by (cases "callWriteFunc x ent w2") simp_all
    with Inl show ?thesis by simp
  next
    case (Inr a)
    with r obtain b where b: "callWriteFunc x ent w2 = Inr b" and ab: "sim a b"
      by (cases "callWriteFunc x ent w2") simp_all
    from Cons.IH [OF ab] Inr b show ?thesis by simp
  qed
qed

lemma rel_sim_trans:
  assumes "rel_sum (=) sim r1 r2" and "rel_sum (=) sim r2 r3"
  shows "rel_sum (=) sim r1 r3"
  using assms by (cases r1; cases r2; cases r3) (auto intro: sim_trans)

lemma sim_chan: "sim (w\<lparr> lg := (lg w)\<lparr> entChan := q \<rparr> \<rparr>) w"
  "sim (w\<lparr> lg := (lg w)\<lparr> entChanClosed := c \<rparr> \<rparr>) w"
  "sim (w\<lparr> lg := (lg w)\<lparr> doneChan := d \<rparr> \<rparr>) w"
  by (simp_all add: sim_def)

lemma callWriteFunc_entChan:
  assumes "callWriteFunc x ent w = Inr w'"
  shows "entChan (lg w') = entChan (lg w) \<and> entChanClosed (lg w') = entChanClosed (lg w) \<and>
         doneChan (lg w') = doneChan (lg w)"
  using callWriteFunc_lg [OF assms] by auto

lemma exec_encodeAll:
  assumes "exec x ev w = Inr w1"
  shows "rel_sum (=) sim (encodeAll x (entChan (lg w) @ sends (ev # evs)) w)
           (encodeAll x (entChan (lg w1) @ sends evs) w1)"
proof (cases ev)
  case (Send e)
  with assms have w1: "w1 = w\<lparr> lg := (lg w)\<lparr> entChan := entChan (lg w) @ [e] \<rparr> \<rparr>"
    by (simp add: exec_def send_world)
  then have "sim w w1" using sim_chan(1) sim_sym by blast
  from encodeAll_sim [OF this] Send w1 show ?thesis by simp
next
  case Recv
  show ?thesis
  proof (cases "entChan (lg w)")
    case Nil
    with Recv assms have w1: "w1 = w\<lparr> lg := (lg w)\<lparr> doneChan := True \<rparr> \<rparr>"
      by (auto simp: exec_def run_step_def split: if_splits)
    then have "sim w w1" using sim_chan(3) sim_sym by blast
    from encodeAll_sim [OF this] Recv Nil w1 show ?thesis by simp
  next
    case (Cons ent es)
    let ?w0 = "w\<lparr> lg := (lg w)\<lparr> entChan := es \<rparr> \<rparr>"
    from Cons Recv assms have c: "callWriteFunc x ent ?w0 = Inr w1"
      by (auto simp: exec_def run_step_def split: if_splits)
    from callWriteFunc_entChan [OF c] have q: "entChan (lg w1) = es" by simp
    have "sim w ?w0" using sim_chan(1) sim_sym by blast
    from callWriteFunc_sim [OF this, of x ent] c
    obtain wa where a: "callWriteFunc x ent w = Inr wa" and s: "sim wa w1"
      by (cases "callWriteFunc x ent w") simp_all
    from encodeAll_sim [OF s] a Cons Recv q show ?thesis by simp
  qed
next
  case CloseChan
  with assms have w1: "w1 = w\<lparr> lg := (lg w)\<lparr> entChanClosed := True \<rparr> \<rparr>"
    by (auto simp: exec_def closeEntChan_def split: if_splits)
  then have "sim w w1" using sim_chan(2) sim_sym by blast
  from encodeAll_sim [OF this] CloseChan w1 show ?thesis by simp
qed

lemma execs_encodeAll:
  "execs x evs w = Inr w' \<Longrightarrow>
     rel_sum (=) sim (encodeAll x (entChan (lg w) @ sends evs) w)
       (encodeAll x (entChan (lg w')) w')"
proof (induction evs arbitrary: w)
  case Nil
  then show ?case by (simp add: encodeAll_sim sim_refl)
next
  case (Cons ev evs)
  from Cons.prems obtain w1 where 1: "exec x ev w = Inr w1" and 2: "execs x evs w1 = Inr w'"
    by (auto split: sum.splits)
  from rel_sim_trans [OF exec_encodeAll [OF 1] Cons.IH [OF 2]] show ?case .
qed

lemma exec_chan_ok:
  assumes "exec x ev w = Inr w1" and "chan_ok w"
  shows "chan_ok w1"
proof (cases ev)
  case (Send e)
  with assms show ?thesis
    by (auto simp: exec_def send_def chan_ok_def split: if_splits)
next
  case Recv
  show ?thesis
  proof (cases "entChan (lg w)")
    case Nil
    with Recv assms show ?thesis
      by (auto simp: exec_def run_step_def chan_ok_def split: if_splits)
  next
    case (Cons ent es)
    with Recv assms have d: "\<not> doneChan (lg w)"
      and c: "callWriteFunc x ent (w\<lparr> lg := (lg w)\<lparr> entChan := es \<rparr> \<rparr>) = Inr w1"
      by (auto simp: exec_def run_step_def split: if_splits)
    from callWriteFunc_entChan [OF c] d show ?thesis by (simp add: chan_ok_def)
  qed
next
  case CloseChan
  with assms show ?thesis
    by (auto simp: exec_def closeEntChan_def chan_ok_def split: if_splits)
qed

lemma execs_chan_ok:
  "execs x evs w = Inr w' \<Longrightarrow> chan_ok w \<Longrightarrow> chan_ok w'"
proof (induction evs arbitrary: w)
  case Nil
  then show ?case by simp
next
  case (Cons ev evs)
  from Cons.prems(1) obtain w1 where 1: "exec x ev w = Inr w1" and 2: "execs x evs w1 = Inr w'"
    by (auto split: sum.splits)
  from Cons.IH [OF 2 exec_chan_ok [OF 1 Cons.prems(2)]] show ?case .
qed

lemma exec_closed:
  assumes "exec x ev w = Inr w1" and "entChanClosed (lg w)"
  shows "entChanClosed (lg w1) \<and> sends [ev] = []"
proof (cases ev)
  case (Send e)
  with assms show ?thesis by (simp add: exec_def send_def)
next
  case Recv
  show ?thesis
  proof (cases "entChan (lg w)")
    case Nil
    with Recv assms show ?thesis by (auto simp: exec_def run_step_def split: if_splits)
  next
    case (Cons ent es)
    with Recv assms have c: "callWriteFunc x ent (w\<lparr> lg := (lg w)\<lparr> entChan := es \<rparr> \<rparr>) = Inr w1"
      by (auto simp: exec_def run_step_def split: if_splits)
    from callWriteFunc_entChan [OF c] assms(2) Recv show ?thesis by simp
  qed
next
  case CloseChan
  with assms show ?thesis by (simp add: exec_def closeEntChan_def)
qed

lemma execs_closed:
  "execs x evs w = Inr w' \<Longrightarrow> entChanClosed (lg w) \<Longrightarrow> sends evs = []"
proof (induction evs arbitrary: w)
  case Nil
  then show ?case by simp
next
  case (Cons ev evs)
  from Cons.prems(1) obtain w1 where 1: "exec x ev w = Inr w1" and 2: "execs x evs w1 = Inr w'"
    by (auto split: sum.splits)
  from exec_closed [OF 1 Cons.prems(2)] have c: "entChanClosed (lg w1)" and s: "sends [ev] = []"
    by simp_all
  from Cons.IH [OF 2 c] s show ?case by (cases ev) simp_all
qed

lemma execs_close_event:
  "execs x evs w = Inr w' \<Longrightarrow> \<not> entChanClosed (lg w) \<Longrightarrow> entChanClosed (lg w') \<Longrightarrow>
     \<exists>evs1 evs2. evs = evs1 @ CloseChan # evs2 \<and> CloseChan \<notin> set evs1 \<and> sends evs2 = []"
proof (induction evs arbitrary: w)
  case Nil
  then show ?case by simp
next
  case (Cons ev evs)
  from Cons.prems(1) obtain w1 where 1: "exec x ev w = Inr w1" and 2: "execs x evs w1 = Inr w'"
    by (auto split: sum.splits)
  show ?case
  proof (cases "ev = CloseChan")
    case True
    with 1 have "entChanClosed (lg w1)" by (auto simp: exec_def closeEntChan_def split: if_splits)
    from execs_closed [OF 2 this] True have "ev # evs = [] @ CloseChan # evs \<and> CloseChan \<notin> set [] \<and> sends evs = []"
      by simp
    then show ?thesis by blast
  next
    case False
    have "\<not> entChanClosed (lg w1)"
    proof (cases ev)
      case (Send e)
      with 1 Cons.prems(2) show ?thesis by (auto simp: exec_def dest: send_world)
    next
      case Recv
      show ?thesis
      proof (cases "entChan (lg w)")
        case Nil
        with Recv 1 Cons.prems(2) show ?thesis by (auto simp: exec_def run_step_def split: if_splits)
      next
        case (Cons ent es)
        with Recv 1 have c: "callWriteFunc x ent (w\<lparr> lg := (lg w)\<lparr> entChan := es \<rparr> \<rparr>) = Inr w1"
          by (auto simp: exec_def run_step_def split: if_splits)
        from callWriteFunc_entChan [OF c] Cons.prems(2) show ?thesis by simp
      qed
    next
      case CloseChan
      with False show ?thesis by simp
    qed
    from Cons.IH [OF 2 this Cons.prems(3)]
    obtain evs1 evs2 where "evs = evs1 @ CloseChan # evs2" "CloseChan \<notin> set evs1" "sends evs2 = []"
      by blast
    with False have "ev # evs = (ev # evs1) @ CloseChan # evs2 \<and> CloseChan \<notin> set (ev # evs1) \<and> sends evs2 = []"
      by simp
    then show ?thesis by blast
  qed
qed

lemma spec_text_line_buf:
  "spec_text_line x (a\<lparr> buf := b \<rparr>) m ent = spec_text_line x a m ent"
  by (simp add: spec_text_line_def)

lemma encodeAll_text:
  assumes "writeFunc (lg w) = Some WriteText"
    and "\<forall>e\<in>set es. NoLevel \<le> entry.level e \<and> entry.level e \<le> DebugLevel \<and>
                      Sprintln x (args e) \<noteq> []"
  shows "\<exists>w''. encodeAll x es w = Inr w'' \<and>
           written w'' = written w @ map (\<lambda>e. spec_text_line x (lg w) (readMap w (flds e)) e) es"
  using assms
proof (induction es arbitrary: w)
  case Nil
  then show ?case by simp
next
  case (Cons ent es)
  let ?line = "spec_text_line x (lg w) (readMap w (flds ent)) ent"
  let ?w1 = "w\<lparr> lg := (lg w)\<lparr> buf := ?line \<rparr>, written := written w @ [?line] \<rparr>"
  from Cons.prems(2) have "NoLevel \<le> entry.level ent" "entry.level ent \<le> DebugLevel"
    "Sprintln x (args ent) \<noteq> []" by simp_all
  from writeText_result [OF this, of w] Cons.prems(1)
  have c: "callWriteFunc x ent w = Inr ?w1" by (simp add: callWriteFunc_def)
  have f: "writeFunc (lg ?w1) = Some WriteText" using Cons.prems(1) by simp
  from Cons.prems(2) have r: "\<forall>e\<in>set es. NoLevel \<le> entry.level e \<and> entry.level e \<le> DebugLevel \<and>
                      Sprintln x (args e) \<noteq> []" by simp
  have rm: "readMap ?w1 r = readMap w r" for r by (cases r) (simp_all add: readMap_def)
  from Cons.IH [OF f r] c show ?case
    by (simp add: spec_text_line_buf rm)
qed

lemma drain_turns:
  "entChan (lg w) = q \<Longrightarrow> entChanClosed (lg w) \<Longrightarrow> \<not> doneChan (lg w) \<Longrightarrow>
   encodeAll x q w = Inr w'' \<Longrightarrow>
     \<exists>w'. execs x (replicate (Suc (length q)) Recv) w = Inr w' \<and> doneChan (lg w') \<and> sim w' w''"
proof (induction q arbitrary: w w'')
  case Nil
  then have "sim (w\<lparr> lg := (lg w)\<lparr> doneChan := True \<rparr> \<rparr>) w''" using sim_chan(3) by simp
  with Nil show ?case by (simp add: exec_def run_step_def)
next
  case (Cons ent es)
  let ?w0 = "w\<lparr> lg := (lg w)\<lparr> entChan := es \<rparr> \<rparr>"
  from Cons.prems(4) obtain wa where a: "callWriteFunc x ent w = Inr wa"
    and b: "encodeAll x es wa = Inr w''" by (auto split: sum.splits)
  have "sim w ?w0" using sim_chan(1) sim_sym by blast
  from callWriteFunc_sim [OF this, of x ent] a
  obtain w1 where c: "callWriteFunc x ent ?w0 = Inr w1" and s: "sim wa w1"
    by (cases "callWriteFunc x ent ?w0") simp_all
  from callWriteFunc_entChan [OF c] Cons.prems(2,3)
  have q: "entChan (lg w1) = es" "entChanClosed (lg w1)" "\<not> doneChan (lg w1)" by simp_all
  from encodeAll_sim [OF s, of x es] b
  obtain w1'' where d: "encodeAll x es w1 = Inr w1''" and s2: "sim w'' w1''"
    by (cases "encodeAll x es w1") simp_all
  from Cons.IH [OF q d] obtain w' where
    e: "execs x (replicate (Suc (length es)) Recv) w1 = Inr w'" and f: "doneChan (lg w')"
    and g: "sim w' w1''" by blast
  from Cons.prems(1,3) c have "exec x Recv w = Inr w1" by (simp add: exec_def run_step_def)
  with e have "execs x (replicate (Suc (length (ent # es))) Recv) w = Inr w'" by simp
  moreover from g s2 have "sim w' w''" using sim_trans sim_sym by blast
  ultimately show ?case using f by blast
qed

text \<open>
  Claim C3, as amended. Take a logger with an empty, open channel and any interleaving of
  sends, consumer turns and the close of the channel that runs without a panic up to a
  moment where \<^verbatim>\<open>doneChan\<close> is closed, which is when \<open>Close\<close> returns. Then every send of
  the execution came before the close, the channel is empty, and the calls made on the
  writer, the lines printed and the maps are those of encoding the entries sent, each
  once, one after the other in the order of the sends. Under the text encoder this is one
  line per entry, in that order; under the JSON encoder each entry adds one line, or none
  when its map fails to marshal. And the close does return: on a closed channel, if
  encoding the waiting entries raises no panic, one consumer turn per entry and one more
  are all enabled and end with \<^verbatim>\<open>doneChan\<close> closed.
\<close>

theorem close_flushes_in_order:
  assumes "entChan (lg w) = []" and "\<not> entChanClosed (lg w)" and "\<not> doneChan (lg w)"
    and "execs x evs w = Inr w'" and "doneChan (lg w')"
  shows "(\<exists>evs1 evs2. evs = evs1 @ CloseChan # evs2 \<and> CloseChan \<notin> set evs1 \<and> sends evs2 = []) \<and>
         entChan (lg w') = [] \<and>
         (\<exists>w''. encodeAll x (sends evs) w = Inr w'' \<and> written w' = written w'' \<and>
                 printed w' = printed w'' \<and> maps w' = maps w'') \<and>
         (writeFunc (lg w) = Some WriteText \<and>
          (\<forall>e\<in>set (sends evs). NoLevel \<le> entry.level e \<and> entry.level e \<le> DebugLevel \<and>
                                 Sprintln x (args e) \<noteq> []) \<longrightarrow>
            written w' =
              written w @ map (\<lambda>e. spec_text_line x (lg w) (readMap w (flds e)) e) (sends evs)) \<and>
         (\<forall>ent v m. writeFunc (lg v) = Some WriteJSON \<and> jsonObject x ent v = Inr m \<longrightarrow>
            (\<exists>v'. callWriteFunc x ent v = Inr v' \<and>
                  written v' = written v @
                    (case Marshal x m of Inl err \<Rightarrow> [] | Inr enc \<Rightarrow> [enc @ [CHR 0x0A]]))) \<and>
         (\<forall>v. entChanClosed (lg v) \<and> \<not> doneChan (lg v) \<and>
               \<not> isl (encodeAll x (entChan (lg v)) v) \<longrightarrow>
               \<not> isl (execs x (replicate (Suc (length (entChan (lg v)))) Recv) v) \<and>
               doneChan (lg (projr (execs x (replicate (Suc (length (entChan (lg v)))) Recv) v))))"
proof -
  have ok: "chan_ok w" using assms(3) by (simp add: chan_ok_def)
  from execs_chan_ok [OF assms(4) ok] assms(5)
  have c: "entChanClosed (lg w')" and q: "entChan (lg w') = []" by (simp_all add: chan_ok_def)
  from execs_close_event [OF assms(4) assms(2) c]
  have 1: "\<exists>evs1 evs2. evs = evs1 @ CloseChan # evs2 \<and> CloseChan \<notin> set evs1 \<and> sends evs2 = []" .
  from execs_encodeAll [OF assms(4)] assms(1) q
  have "rel_sum (=) sim (encodeAll x (sends evs) w) (Inr w')" by simp
  then obtain w'' where e: "encodeAll x (sends evs) w = Inr w''" and s: "sim w'' w'"
    by (cases "encodeAll x (sends evs) w") simp_all
  from s have 3: "written w' = written w''" "printed w' = printed w''" "maps w' = maps w''"
    by (simp_all add: sim_def)
  have 4: "written w' =
              written w @ map (\<lambda>e. spec_text_line x (lg w) (readMap w (flds e)) e) (sends evs)"
    if "writeFunc (lg w) = Some WriteText"
      and "\<forall>e\<in>set (sends evs). NoLevel \<le> entry.level e \<and> entry.level e \<le> DebugLevel \<and>
                                 Sprintln x (args e) \<noteq> []"
    using encodeAll_text [OF that] e 3 by auto
  have 5: "\<not> isl (execs x (replicate (Suc (length (entChan (lg v)))) Recv) v) \<and>
           doneChan (lg (projr (execs x (replicate (Suc (length (entChan (lg v)))) Recv) v)))"
    if "entChanClosed (lg v)" "\<not> doneChan (lg v)" "\<not> isl (encodeAll x (entChan (lg v)) v)" for v
  proof -
    from that(3) obtain v'' where "encodeAll x (entChan (lg v)) v = Inr v''"
      by (cases "encodeAll x (entChan (lg v)) v") simp_all
    from drain_turns [OF refl that(1,2) this] show ?thesis by auto
  qed
  have 6: "\<exists>v'. callWriteFunc x ent v = Inr v' \<and>
                written v' = written v @
                  (case Marshal x m of Inl err \<Rightarrow> [] | Inr enc \<Rightarrow> [enc @ [CHR 0x0A]])"
    if "writeFunc (lg v) = Some WriteJSON" "jsonObject x ent v = Inr m" for ent v m
  proof (cases "Marshal x m")
    case (Inl err)
    from writeJSON_dropped [OF that(2) Inl] that(1) Inl show ?thesis
      by (auto simp: callWriteFunc_def)
  next
    case (Inr enc)
    from writeJSON_marshalled [OF that(2) Inr] that(1) Inr show ?thesis
      by (auto simp: callWriteFunc_def)
  qed
  from 1 q e 3 4 5 6 show ?thesis by blast
qed

lemma ex_schedule_run:
  "\<not> isl (execs goLib ex_schedule ex_text_world) \<and>
   doneChan (lg (projr (execs goLib ex_schedule ex_text_world)))"
  by (simp add: ex_schedule_def exec_def send_def entCap_def run_step_def closeEntChan_def
      callWriteFunc_def writeText_def Let_def index_def levelNamesText_def ex_text_entry_def
      ex_bye_entry_def ex_text_logger level_defs)

theorem close_flushes_in_order_witness:
  "entChan (lg ex_text_world) = [] \<and> \<not> entChanClosed (lg ex_text_world) \<and>
   \<not> doneChan (lg ex_text_world) \<and>
   \<not> isl (execs goLib ex_schedule ex_text_world) \<and>
   doneChan (lg (projr (execs goLib ex_schedule ex_text_world))) \<and>
   writeFunc (lg ex_text_world) = Some WriteText \<and>
   sends ex_schedule = [ex_text_entry, ex_bye_entry] \<and>
   NoLevel \<le> entry.level ex_text_entry \<and> entry.level ex_text_entry \<le> DebugLevel \<and>
   Sprintln goLib (args ex_text_entry) \<noteq> [] \<and>
   NoLevel \<le> entry.level ex_bye_entry \<and> entry.level ex_bye_entry \<le> DebugLevel \<and>
   Sprintln goLib (args ex_bye_entry) \<noteq> [] \<and>
   written (projr (execs goLib ex_schedule ex_text_world)) =
     [''happylog  INFO hello (foo=bar)'' @ [CHR 0x0A], ''happylog  bye'' @ [CHR 0x0A]] \<and>
   writeFunc (lg ex_json_world) = Some WriteJSON \<and>
   \<not> isl (jsonObject goLib ex_json_entry ex_json_world) \<and>
   \<not> isl (Marshal goLib (projr (jsonObject goLib ex_json_entry ex_json_world))) \<and>
   written (projr (callWriteFunc goLib ex_json_entry ex_json_world)) =
     [projr (Marshal goLib (projr (jsonObject goLib ex_json_entry ex_json_world))) @ [CHR 0x0A]] \<and>
   entChanClosed (lg (ex_text_world\<lparr> lg := (lg ex_text_world)\<lparr> entChanClosed := True \<rparr> \<rparr>)) \<and>
   \<not> isl (execs goLib [Recv]
            (ex_text_world\<lparr> lg := (lg ex_text_world)\<lparr> entChanClosed := True \<rparr> \<rparr>)) \<and>
   doneChan (lg (projr (execs goLib [Recv]
            (ex_text_world\<lparr> lg := (lg ex_text_world)\<lparr> entChanClosed := True \<rparr> \<rparr>))))"
proof -
  let ?w' = "projr (execs goLib ex_schedule ex_text_world)"
  let ?v = "ex_text_world\<lparr> lg := (lg ex_text_world)\<lparr> entChanClosed := True \<rparr> \<rparr>"
  have h1: "entChan (lg ex_text_world) = []" and h2: "\<not> entChanClosed (lg ex_text_world)"
    and h3: "\<not> doneChan (lg ex_text_world)" and t: "writeFunc (lg ex_text_world) = Some WriteText"
    by (simp_all add: ex_text_logger)
  from ex_schedule_run have h4: "execs goLib ex_schedule ex_text_world = Inr ?w'"
    by (cases "execs goLib ex_schedule ex_text_world") simp_all
  from ex_schedule_run have h5: "doneChan (lg ?w')" by simp
  have s: "sends ex_schedule = [ex_text_entry, ex_bye_entry]"
    by (simp add: ex_schedule_def)
  have a: "\<forall>e\<in>set (sends ex_schedule). NoLevel \<le> entry.level e \<and> entry.level e \<le> DebugLevel \<and>
       Sprintln goLib (args e) \<noteq> []"
    by (simp add: s ex_text_entry_def ex_bye_entry_def level_defs goLib_def)
  note c = close_flushes_in_order [OF h1 h2 h3 h4 h5]
  have v: "entChanClosed (lg ?v) \<and> \<not> doneChan (lg ?v) \<and>
           \<not> isl (encodeAll goLib (entChan (lg ?v)) ?v)"
    by (simp add: ex_text_logger)
  have n: "replicate (Suc (length (entChan (lg ?v)))) Recv = [Recv]"
    by (simp add: ex_text_logger)
  from c have "\<forall>v. entChanClosed (lg v) \<and> \<not> doneChan (lg v) \<and>
               \<not> isl (encodeAll goLib (entChan (lg v)) v) \<longrightarrow>
               \<not> isl (execs goLib (replicate (Suc (length (entChan (lg v)))) Recv) v) \<and>
               doneChan (lg (projr (execs goLib (replicate (Suc (length (entChan (lg v)))) Recv) v)))"
    by blast
  from this [rule_format, OF v]
  have p: "\<not> isl (execs goLib [Recv] ?v) \<and> doneChan (lg (projr (execs goLib [Recv] ?v)))"
    by (simp only: n simp_thms)
  let ?m = "[(''level'', VString ''info''), (''fields.level'', VString ''custom''),
             (''msg'', VString ''hello'')]"
  have j1: "writeFunc (lg ex_json_world) = Some WriteJSON"
    by (simp add: ex_json_logger)
  have j2: "jsonObject goLib ex_json_entry ex_json_world = Inr ?m"
    by (simp add: jsonObject_def addReserved_def errorsToStrings_def keepUnder_def setKey_def
        readMap_def Level_String_def index_def levelNames_def ex_json_entry_def ex_json_logger
        ex_json_world_simps(2-) field_names level_defs goLib_def)
  have j3: "\<not> isl (Marshal goLib ?m)"
    by (simp add: goLib_def goMarshal_def sortKeys_def)
  from c have "\<forall>ent v m. writeFunc (lg v) = Some WriteJSON \<and> jsonObject goLib ent v = Inr m \<longrightarrow>
            (\<exists>v'. callWriteFunc goLib ent v = Inr v' \<and>
                  written v' = written v @
                    (case Marshal goLib m of Inl err \<Rightarrow> [] | Inr enc \<Rightarrow> [enc @ [CHR 0x0A]]))"
    by blast
  from this [rule_format, of ex_json_world ex_json_entry ?m] j1 j2
  obtain v' where "callWriteFunc goLib ex_json_entry ex_json_world = Inr v'"
    and "written v' = written ex_json_world @
           (case Marshal goLib ?m of Inl err \<Rightarrow> [] | Inr enc \<Rightarrow> [enc @ [CHR 0x0A]])"
    by blast
  with j3 have j4: "written (projr (callWriteFunc goLib ex_json_entry ex_json_world)) =
     [projr (Marshal goLib ?m) @ [CHR 0x0A]]"
    by (cases "Marshal goLib ?m") (simp_all add: ex_json_world_simps(2-))
  from c t a
  have "written ?w' = written ex_text_world @
      map (\<lambda>e. spec_text_line goLib (lg ex_text_world) (readMap ex_text_world (flds e)) e)
        (sends ex_schedule)"
    by blast
  also have "\<dots> = [''happylog  INFO hello (foo=bar)'' @ [CHR 0x0A], ''happylog  bye'' @ [CHR 0x0A]]"
    by (simp add: s spec_text_line_def spec_label_def spec_message_def ex_text_entry_def
        ex_bye_entry_def ex_text_logger ex_text_world_simps readMap_def goLib_def level_defs)
  finally show ?thesis using h1 h2 h3 ex_schedule_run t a v p j1 j2 j3 j4 by (simp add: s)
qed

lemma ex_chan_logger:
  "lg ex_chan_world =
     \<lparr> buf = [], entChan =
        [\<lparr> ts = 0, level = 0, format = [], args = [VString ''x''], flds = Some 0, ln = False \<rparr>,
         \<lparr> ts = 0, level = 0, format = [], args = [VString ''y''], flds = None, ln = False \<rparr>],
       entChanClosed = False, doneChan = False,
       writeFunc = Some WriteJSON, out = Writer 0, level = 0, tsLayout = [], prefix = [] \<rparr>"
  by (simp add: ex_chan_world_simps NewJSON_def newLogger_def goLib_def goTrimSpace_def
      isSpace_def level_defs)

text \<open>
  Claim C3, as stated, fails for the JSON encoder: of the two entries waiting in the
  channel of \<open>ex_chan_world\<close> when it is closed, the first does not marshal; when
  \<^verbatim>\<open>doneChan\<close> is closed one call has been made on the writer, not two, and the
  diagnostic has been printed.
\<close>

theorem dropped_entry_counterexample:
  "length (entChan (lg ex_chan_world)) = 2 \<and> \<not> entChanClosed (lg ex_chan_world) \<and>
   \<not> isl (execs goLib [CloseChan, Recv, Recv, Recv] ex_chan_world) \<and>
   doneChan (lg (projr (execs goLib [CloseChan, Recv, Recv, Recv] ex_chan_world))) \<and>
   length (written (projr (execs goLib [CloseChan, Recv, Recv, Recv] ex_chan_world))) = 1 \<and>
   printed (projr (execs goLib [CloseChan, Recv, Recv, Recv] ex_chan_world)) =
     [''Failed to marshal fields to JSON: json: unsupported type: chan int'' @ [CHR 0x0A]]"
  by (simp add: exec_def run_step_def closeEntChan_def callWriteFunc_def writeJSON_def
      addReserved_def errorsToStrings_def keepUnder_def setKey_def newFields_def Let_def
      field_names level_defs ex_chan_logger ex_chan_world_simps(1-4) goLib_def
      goMarshal_def sortKeys_def)

section \<open>The Panic family\<close>

lemma LogableAt_PanicLevel:
  assumes "NoLevel \<le> logger.level a"
  shows "LogableAt a PanicLevel"
  using assms by (auto simp: LogableAt_def level_defs)

text \<open>
  What the three calls do on an open channel with room: the entry at \<open>PanicLevel\<close> is
  sent, \<open>Close\<close> runs, and \<^verbatim>\<open>panic\<close> is called with \<^verbatim>\<open>Sprint\<close> of the operands, for
  \<open>Panicln\<close> too, or with \<^verbatim>\<open>Sprintf\<close> for \<open>Panicf\<close>.
\<close>

lemma logger_Panicln_outcome:
  assumes "NoLevel \<le> logger.level (lg w)" and "\<not> entChanClosed (lg w)"
    and "length (entChan (lg w)) < entCap"
  shows "logger_Panicln x now v w =
           (case logger_Close x (w\<lparr> lg := (lg w)\<lparr> entChan := entChan (lg w) @
                   [\<lparr> ts = now, level = PanicLevel, format = [], args = v, flds = None,
                      ln = True \<rparr>] \<rparr> \<rparr>) of
              Inl e \<Rightarrow> Inl e
            | Inr w2 \<Rightarrow> Inr (w2, Sprint x v))"
  using assms LogableAt_PanicLevel [OF assms(1)]
  by (simp add: logger_Panicln_def logger_logln_def send_def)

lemma logger_Panic_outcome:
  assumes "NoLevel \<le> logger.level (lg w)" and "\<not> entChanClosed (lg w)"
    and "length (entChan (lg w)) < entCap"
  shows "logger_Panic x now v w =
           (case logger_Close x (w\<lparr> lg := (lg w)\<lparr> entChan := entChan (lg w) @
                   [\<lparr> ts = now, level = PanicLevel, format = [], args = v, flds = None,
                      ln = False \<rparr>] \<rparr> \<rparr>) of
              Inl e \<Rightarrow> Inl e
            | Inr w2 \<Rightarrow> Inr (w2, Sprint x v))"
  using assms LogableAt_PanicLevel [OF assms(1)]
  by (simp add: logger_Panic_def logger_log_def send_def)

lemma logger_Panicf_outcome:
  assumes "NoLevel \<le> logger.level (lg w)" and "\<not> entChanClosed (lg w)"
    and "length (entChan (lg w)) < entCap"
  shows "logger_Panicf x now fmt v w =
           (case logger_Close x (w\<lparr> lg := (lg w)\<lparr> entChan := entChan (lg w) @
                   [\<lparr> ts = now, level = PanicLevel, format = fmt, args = v, flds = None,
                      ln = False \<rparr>] \<rparr> \<rparr>) of
              Inl e \<Rightarrow> Inl e
            | Inr w2 \<Rightarrow> Inr (w2, Sprintf x fmt v))"
  using assms LogableAt_PanicLevel [OF assms(1)]
  by (simp add: logger_Panicf_def logger_logf_def send_def)

lemma ex_panic_logger:
  "lg ex_panic_world =
     \<lparr> buf = [], entChan = [], entChanClosed = False, doneChan = False,
       writeFunc = Some WriteText, out = OsStdout, level = 5, tsLayout = [], prefix = [] \<rparr>"
  by (simp add: ex_panic_world_def boot_def NewText_def newLogger_def goLib_def goTrimSpace_def
      isSpace_def level_defs)

lemma ex_panic_world_simps:
  "written ex_panic_world = []" "printed ex_panic_world = []"
  by (simp_all add: ex_panic_world_def boot_def)

text \<open>
  Claim C8 at \<^verbatim>\<open>Panicln("a", "b")\<close>. The call sends the entry, closes the logger, which
  writes the line \<^verbatim>\<open> PANIC a b\<close>, and panics; but the value passed to \<^verbatim>\<open>panic\<close> is
  \<^verbatim>\<open>ab\<close>, the \<^verbatim>\<open>Sprint\<close> of the operands, not the message \<^verbatim>\<open>a b\<close> that was logged. The
  scoped logger does the same. \<^verbatim>\<open>Panic("a", "b")\<close> logs and passes \<^verbatim>\<open>ab\<close>.
\<close>

theorem Panicln_payload_differs:
  "\<not> isl (logger_Panicln goLib 0 ex_panic_args ex_panic_world) \<and>
   written (fst (projr (logger_Panicln goLib 0 ex_panic_args ex_panic_world))) =
     ['' PANIC a b'' @ [CHR 0x0A]] \<and>
   doneChan (lg (fst (projr (logger_Panicln goLib 0 ex_panic_args ex_panic_world)))) \<and>
   snd (projr (logger_Panicln goLib 0 ex_panic_args ex_panic_world)) = ''ab'' \<and>
   snd (projr (fieldLogger_Panicln goLib (logger_WithFields None) 0 ex_panic_args ex_panic_world)) =
     ''ab'' \<and>
   snd (projr (logger_Panic goLib 0 ex_panic_args ex_panic_world)) = ''ab'' \<and>
   written (fst (projr (logger_Panic goLib 0 ex_panic_args ex_panic_world))) =
     ['' PANIC ab'' @ [CHR 0x0A]]"
  by (simp add: logger_Panicln_def logger_Panic_def fieldLogger_Panicln_def logger_WithFields_def
      logger_logln_def logger_log_def LogableAt_def send_def
      entCap_def logger_Close_def closeEntChan_def callWriteFunc_def writeText_def Let_def
      index_def levelNamesText_def readMap_def ex_panic_args_def ex_panic_logger
      ex_panic_world_simps goLib_def level_defs)

section \<open>JSON encoder: the loop after a marshalling failure\<close>

text \<open>When encoding the entries raises no panic, \<open>run\<close> encodes them all and ends.\<close>

lemma run_encodeAll:
  "entChan (lg w) = q \<Longrightarrow> encodeAll x es w = Inr w'' \<Longrightarrow>
     \<exists>v. run x es w = Inr v \<and> doneChan (lg v) \<and> sim v w'' \<and>
         entChan (lg v) = (if es = [] then q else [])"
proof (induction es arbitrary: w w'' q)
  case Nil
  then have "sim (w\<lparr> lg := (lg w)\<lparr> doneChan := True \<rparr> \<rparr>) w''" using sim_chan(3) by simp
  with Nil show ?case by simp
next
  case (Cons ent es)
  let ?w0 = "w\<lparr> lg := (lg w)\<lparr> entChan := es \<rparr> \<rparr>"
  from Cons.prems(2) obtain wa where a: "callWriteFunc x ent w = Inr wa"
    and b: "encodeAll x es wa = Inr w''" by (auto split: sum.splits)
  have "sim w ?w0" using sim_chan(1) sim_sym by blast
  from callWriteFunc_sim [OF this, of x ent] a
  obtain w1 where c: "callWriteFunc x ent ?w0 = Inr w1" and s: "sim wa w1"
    by (cases "callWriteFunc x ent ?w0") simp_all
  from callWriteFunc_entChan [OF c] have q: "entChan (lg w1) = es" by simp
  from encodeAll_sim [OF s, of x es] b
  obtain w1'' where d: "encodeAll x es w1 = Inr w1''" and s2: "sim w'' w1''"
    by (cases "encodeAll x es w1") simp_all
  from Cons.IH [OF q d] obtain v where
    e: "run x es w1 = Inr v" and f: "doneChan (lg v)" and g: "sim v w1''"
    and h: "entChan (lg v) = (if es = [] then es else [])" by blast
  from g s2 have "sim v w''" using sim_trans sim_sym by blast
  moreover from h have "entChan (lg v) = []" by (simp split: if_splits)
  ultimately show ?case using c e f by simp
qed

text \<open>
  Claim C7. When the consumer of a JSON logger receives an entry whose map fails to
  marshal, the turn of the loop ends normally: nothing is passed to the writer, one
  diagnostic line is printed with \<^verbatim>\<open>fmt.Println\<close>, the entry is gone from the channel
  (it is not tried again), and the logger is otherwise as it was, so that no producer can
  observe the failure. The loop goes on: when the next entry marshals, the next turn
  passes its line to the writer; and \<open>run\<close> as a whole, from that failure on, encodes
  every entry that follows, in order, comes to its end and closes \<^verbatim>\<open>doneChan\<close>, the
  writer having received what encoding the following entries writes.
\<close>

theorem marshal_failure_drops_entry:
  assumes "writeFunc (lg w) = Some WriteJSON"
    and "entChan (lg w) = ent # es" and "\<not> doneChan (lg w)"
    and "jsonObject x ent w = Inr m" and "Marshal x m = Inl err"
  shows "\<exists>w'. run_step x w = Inr w' \<and>
           written w' = written w \<and>
           printed w' = printed w @ [marshalDiagnostic x err] \<and>
           lg w' = (lg w)\<lparr> entChan := es \<rparr> \<and>
           run x (ent # es) w = run x es w' \<and>
           (\<forall>ent2 es2 m2 enc.
              es = ent2 # es2 \<and> jsonObject x ent2 w' = Inr m2 \<and> Marshal x m2 = Inr enc \<longrightarrow>
              (\<exists>w2. run_step x w' = Inr w2 \<and> written w2 = written w @ [enc @ [CHR 0x0A]] \<and>
                    printed w2 = printed w' \<and> entChan (lg w2) = es2)) \<and>
           (\<forall>w''. encodeAll x es w' = Inr w'' \<longrightarrow>
              (\<exists>v. run x (ent # es) w = Inr v \<and> doneChan (lg v) \<and> entChan (lg v) = [] \<and>
                   written v = written w'' \<and> printed v = printed w'' \<and> maps v = maps w''))"
proof -
  let ?w0 = "w\<lparr> lg := (lg w)\<lparr> entChan := es \<rparr> \<rparr>"
  from assms(4) have "jsonObject x ent ?w0 = Inr m" by (simp add: jsonObject_entChan)
  from writeJSON_dropped [OF this assms(5)]
  obtain w' where w': "writeJSON x ent ?w0 = Inr w'" and wr: "written w' = written w"
    and pr: "printed w' = printed w @ [marshalDiagnostic x err]"
    and l: "lg w' = (lg w)\<lparr> entChan := es \<rparr>"
    by (auto simp: marshalDiagnostic_def)
  from w' assms(1) have call: "callWriteFunc x ent ?w0 = Inr w'"
    by (simp add: callWriteFunc_def)
  with assms(2,3) have step: "run_step x w = Inr w'" by (simp add: run_step_def)
  from call have unf: "run x (ent # es) w = run x es w'" by simp
  have next_turn: "\<exists>w2. run_step x w' = Inr w2 \<and> written w2 = written w @ [enc @ [CHR 0x0A]] \<and>
                    printed w2 = printed w' \<and> entChan (lg w2) = es2"
    if "es = ent2 # es2" "jsonObject x ent2 w' = Inr m2" "Marshal x m2 = Inr enc"
    for ent2 es2 m2 enc
  proof -
    let ?w1 = "w'\<lparr> lg := (lg w')\<lparr> entChan := es2 \<rparr> \<rparr>"
    from that(2) have "jsonObject x ent2 ?w1 = Inr m2" by (simp add: jsonObject_entChan)
    from writeJSON_marshalled [OF this that(3)]
    obtain w2 where a: "writeJSON x ent2 ?w1 = Inr w2"
      and b: "written w2 = written w' @ [enc @ [CHR 0x0A]]"
      and c: "printed w2 = printed w'" and d: "lg w2 = (lg w')\<lparr> entChan := es2 \<rparr>"
      by auto
    from a l assms(1) have "callWriteFunc x ent2 ?w1 = Inr w2" by (simp add: callWriteFunc_def)
    with l that(1) assms(3) have "run_step x w' = Inr w2" by (simp add: run_step_def)
    with b c d wr show ?thesis by simp
  qed
  have rest: "\<exists>v. run x (ent # es) w = Inr v \<and> doneChan (lg v) \<and> entChan (lg v) = [] \<and>
                   written v = written w'' \<and> printed v = printed w'' \<and> maps v = maps w''"
    if "encodeAll x es w' = Inr w''" for w''
  proof -
    from l have q: "entChan (lg w') = es" by simp
    from run_encodeAll [OF q that]
    obtain v where "run x es w' = Inr v" "doneChan (lg v)" "sim v w''"
      "entChan (lg v) = (if es = [] then es else [])" by blast
    then show ?thesis using unf by (auto simp: sim_def split: if_splits)
  qed
  from step wr pr l unf next_turn rest show ?thesis by blast
qed

lemma ex_chan_closed_simps:
  "written ex_chan_closed = []" "printed ex_chan_closed = []"
  "maps ex_chan_closed 0 = [(''c'', VChan)]"
  "lg ex_chan_closed = (lg ex_chan_world)\<lparr> entChanClosed := True \<rparr>"
  by (simp_all add: ex_chan_closed_def closeEntChan_def ex_chan_logger ex_chan_world_simps(1-4))

theorem marshal_failure_drops_entry_witness:
  "writeFunc (lg ex_chan_closed) = Some WriteJSON \<and>
   entChan (lg ex_chan_closed) =
     [\<lparr> ts = 0, level = 0, format = [], args = [VString ''x''], flds = Some 0, ln = False \<rparr>,
      \<lparr> ts = 0, level = 0, format = [], args = [VString ''y''], flds = None, ln = False \<rparr>] \<and>
   \<not> doneChan (lg ex_chan_closed) \<and>
   out (lg ex_chan_closed) = Writer 0 \<and>
   jsonObject goLib (hd (entChan (lg ex_chan_closed))) ex_chan_closed =
     Inr [(''c'', VChan), (''msg'', VString ''x'')] \<and>
   Marshal goLib [(''c'', VChan), (''msg'', VString ''x'')] =
     Inl ''json: unsupported type: chan int'' \<and>
   written (projr (run_step goLib ex_chan_closed)) = [] \<and>
   printed (projr (run_step goLib ex_chan_closed)) =
     [''Failed to marshal fields to JSON: json: unsupported type: chan int'' @ [CHR 0x0A]] \<and>
   entChan (lg (projr (run_step goLib ex_chan_closed))) = tl (entChan (lg ex_chan_closed)) \<and>
   Marshal goLib [(''msg'', VString ''y'')] =
     Inr (''{'' @ [CHR 0x22] @ ''msg'' @ [CHR 0x22] @ '':'' @ [CHR 0x22] @ ''y'' @ [CHR 0x22] @ ''}'') \<and>
   written (projr (run_step goLib (projr (run_step goLib ex_chan_closed)))) =
     [''{'' @ [CHR 0x22] @ ''msg'' @ [CHR 0x22] @ '':'' @ [CHR 0x22] @ ''y'' @ [CHR 0x22] @ ''}'' @
      [CHR 0x0A]] \<and>
   \<not> isl (logger_Close goLib ex_chan_world) \<and>
   doneChan (lg (projr (logger_Close goLib ex_chan_world))) \<and>
   written (projr (logger_Close goLib ex_chan_world)) =
     [''{'' @ [CHR 0x22] @ ''msg'' @ [CHR 0x22] @ '':'' @ [CHR 0x22] @ ''y'' @ [CHR 0x22] @ ''}'' @
      [CHR 0x0A]] \<and>
   printed (projr (logger_Close goLib ex_chan_world)) =
     [''Failed to marshal fields to JSON: json: unsupported type: chan int'' @ [CHR 0x0A]]"
proof -
  let ?e1 = "\<lparr> ts = 0, level = 0, format = [], args = [VString ''x''], flds = Some 0, ln = False \<rparr>"
  let ?e2 = "\<lparr> ts = 0, level = 0, format = [], args = [VString ''y''], flds = None, ln = False \<rparr>"
  let ?m1 = "[(''c'', VChan), (''msg'', VString ''x'')]"
  let ?m2 = "[(''msg'', VString ''y'')]"
  let ?enc = "''{'' @ [CHR 0x22] @ ''msg'' @ [CHR 0x22] @ '':'' @ [CHR 0x22] @ ''y'' @ [CHR 0x22] @ ''}''"
  let ?diag = "''Failed to marshal fields to JSON: json: unsupported type: chan int'' @ [CHR 0x0A]"
  have h1: "writeFunc (lg ex_chan_closed) = Some WriteJSON"
    and h2: "entChan (lg ex_chan_closed) = ?e1 # [?e2]"
    and h3: "\<not> doneChan (lg ex_chan_closed)"
    and o: "out (lg ex_chan_closed) = Writer 0"
    by (simp_all add: ex_chan_closed_simps ex_chan_logger)
  have h4: "jsonObject goLib ?e1 ex_chan_closed = Inr ?m1"
    by (simp add: jsonObject_def addReserved_def errorsToStrings_def keepUnder_def setKey_def
        readMap_def ex_chan_closed_simps ex_chan_logger field_names level_defs goLib_def)
  have h5: "Marshal goLib ?m1 = Inl ''json: unsupported type: chan int''"
    by (simp add: goLib_def goMarshal_def sortKeys_def)
  have m2: "Marshal goLib ?m2 = Inr ?enc"
    by (simp add: goLib_def goMarshal_def sortKeys_def)
  have cl: "logger_Close goLib ex_chan_world = run goLib (?e1 # [?e2]) ex_chan_closed"
    by (simp add: logger_Close_def closeEntChan_def ex_chan_closed_def ex_chan_logger)
  from marshal_failure_drops_entry [OF h1 h2 h3 h4 h5]
  obtain w' where step: "run_step goLib ex_chan_closed = Inr w'"
    and wr: "written w' = written ex_chan_closed"
    and pr: "printed w' = printed ex_chan_closed @
           [marshalDiagnostic goLib ''json: unsupported type: chan int'']"
    and l: "lg w' = (lg ex_chan_closed)\<lparr> entChan := [?e2] \<rparr>"
    and nxt: "\<forall>ent2 es2 m2 enc.
              [?e2] = ent2 # es2 \<and> jsonObject goLib ent2 w' = Inr m2 \<and> Marshal goLib m2 = Inr enc \<longrightarrow>
              (\<exists>w2. run_step goLib w' = Inr w2 \<and>
                    written w2 = written ex_chan_closed @ [enc @ [CHR 0x0A]] \<and>
                    printed w2 = printed w' \<and> entChan (lg w2) = es2)"
    and rest: "\<forall>w''. encodeAll goLib [?e2] w' = Inr w'' \<longrightarrow>
              (\<exists>v. run goLib (?e1 # [?e2]) ex_chan_closed = Inr v \<and> doneChan (lg v) \<and>
                   entChan (lg v) = [] \<and> written v = written w'' \<and> printed v = printed w'' \<and>
                   maps v = maps w'')"
    by blast
  have j2: "jsonObject goLib ?e2 w' = Inr ?m2"
    by (simp add: jsonObject_def addReserved_def errorsToStrings_def keepUnder_def setKey_def
        readMap_def l ex_chan_closed_simps ex_chan_logger field_names level_defs goLib_def)
  from nxt [rule_format, of ?e2 "[]" ?m2 ?enc] j2 m2
  obtain w2 where s2: "run_step goLib w' = Inr w2"
    and wr2: "written w2 = written ex_chan_closed @ [?enc @ [CHR 0x0A]]"
    by blast
  from writeJSON_marshalled [OF j2 m2]
  obtain w3 where a: "writeJSON goLib ?e2 w' = Inr w3"
    and b: "written w3 = written w' @ [?enc @ [CHR 0x0A]]" and c: "printed w3 = printed w'"
    by blast
  from a l have "encodeAll goLib [?e2] w' = Inr w3"
    by (simp add: callWriteFunc_def ex_chan_closed_simps ex_chan_logger)
  from rest [rule_format, OF this]
  obtain v where r: "run goLib (?e1 # [?e2]) ex_chan_closed = Inr v" and d: "doneChan (lg v)"
    and wv: "written v = written w3" and pv: "printed v = printed w3"
    by blast
  have diag: "marshalDiagnostic goLib ''json: unsupported type: chan int'' = ?diag"
    by (simp add: marshalDiagnostic_def goLib_def)
  from step wr pr l s2 wr2 r d wv pv b c cl h1 h2 h3 o h4 h5 m2 diag
  show ?thesis
    by (simp add: ex_chan_closed_simps)
qed

end
